theory Spec2Isabelle
  imports Complex_Main "HOL-Library.AList" "HOL-Library.Word"
begin

section \<open>The media store of the Telegram MCP server\<close>

text \<open>
  A shallow embedding of \<^verbatim>\<open>telegram_mcp/utils/media_storage.py\<close> (class
  \<^verbatim>\<open>MediaStorage\<close>) and of the resource handler \<^verbatim>\<open>get_telegram_media\<close> of
  \<^verbatim>\<open>main.py\<close>.

  Modelling decisions:
  \<^item> A path is the string that \<^verbatim>\<open>str(Path(...))\<close> yields; two paths name the same file
    exactly when the strings are equal (no symbolic links, no directories among the
    files, no relative/absolute aliases).
  \<^item> The file system is a partial map from paths to byte contents. The index file
    \<^verbatim>\<open>index.json\<close> is kept apart from it, as the value that \<^verbatim>\<open>json.dump\<close> wrote.
  \<^item> The metadata dictionaries of the index are mutable Python objects that the index
    and the lists returned by \<^verbatim>\<open>list_media\<close> share. They live in an explicit heap;
    the index maps a key to a reference.
  \<^item> A Python dictionary keeps insertion order: the index is an association list,
    updated in place (\<open>AList.update\<close>) or extended at the end.
  \<^item> Every operation returns its result (an error or a value) together with the
    state it leaves behind, since a raised exception does not undo earlier effects.
  \<^item> What the environment decides is a field of the state: whether \<^verbatim>\<open>os.remove\<close>
    fails on a path (\<open>undeletable\<close>) and whether the index file can be written
    (\<open>index_writable\<close>). \<^verbatim>\<open>mimetypes.guess_type\<close> and \<^verbatim>\<open>datetime.now().isoformat()\<close>
    are parameters of \<open>save_media\<close>.
\<close>

subsection \<open>Data\<close>

type_synonym bytes = "8 word list"

type_synonym ref = nat

text \<open>The metadata dictionary of one attachment. The keys \<^verbatim>\<open>chat_id\<close> and
  \<^verbatim>\<open>message_id\<close> are absent (\<open>None\<close>) until \<^verbatim>\<open>list_media\<close> adds them.\<close>

record media_info =
  path :: string
  mime_type :: string
  timestamp :: string
  size_field :: nat
  extension :: string
  chat_id :: "int option"
  message_id :: "int option"

datatype error =
    FileNotFoundError string
  | SameFileError string
  | IOError string
  | OSError string
  | ValueError string

text \<open>What \<^verbatim>\<open>index.json\<close> holds: nothing (no file), something \<^verbatim>\<open>json.load\<close> rejects,
  or an object mapping keys to metadata objects.\<close>

datatype index_json = NoFile | Unparseable | IndexJson "(string \<times> media_info) list"

record store =
  base_dir :: string
  index :: "(string \<times> ref) list"
  heap :: "ref \<Rightarrow> media_info"
  next_ref :: ref
  files :: "string \<Rightarrow> bytes option"
  index_file :: index_json
  index_writes :: nat
  undeletable :: "string set"
  index_writable :: bool

record blob_resource_contents =
  uri :: string
  blob :: string
  mimeType :: string

record storage_stats =
  total_files :: nat
  total_size_bytes :: nat
  total_size_mb :: rat
  storage_path :: string

subsection \<open>Python built-ins and library functions the store calls\<close>

text \<open>\<^verbatim>\<open>f"{n}"\<close> for an integer: its decimal numeral, with a minus sign when negative.\<close>

definition digit_char :: "nat \<Rightarrow> char" where
  "digit_char n = ''0123456789'' ! n"

fun digits :: "nat \<Rightarrow> string" where
  "digits n = (if n < 10 then [digit_char n] else digits (n div 10) @ [digit_char (n mod 10)])"

declare digits.simps [simp del]

definition str_int :: "int \<Rightarrow> string" where
  "str_int i = (if i < 0 then CHR ''-'' # digits (nat (- i)) else digits (nat i))"

text \<open>\<^verbatim>\<open>s.split(d)\<close> with a one-character separator.\<close>

fun split_on :: "char \<Rightarrow> string \<Rightarrow> string list" where
  "split_on d [] = [[]]"
| "split_on d (c # cs) =
     (if c = d then [] # split_on d cs
      else (case split_on d cs of [] \<Rightarrow> [[c]] | g # gs \<Rightarrow> (c # g) # gs))"

text \<open>\<^verbatim>\<open>int(s)\<close> on a string, base 10, for ASCII input: surrounding white space is
  dropped, one sign is allowed, and single underscores may separate digits.
  \<open>None\<close> stands for the \<^verbatim>\<open>ValueError\<close>.\<close>

definition digit_val :: "char \<Rightarrow> nat option" where
  "digit_val c = map_of (zip ''0123456789'' [0..<10]) c"

definition is_space :: "char \<Rightarrow> bool" where
  "is_space c = (c \<in> set [CHR '' '', CHR 0x09, CHR 0x0A, CHR 0x0B, CHR 0x0C, CHR 0x0D,
                            CHR 0x1C, CHR 0x1D, CHR 0x1E, CHR 0x1F])"

definition strip :: "string \<Rightarrow> string" where
  "strip s = rev (dropWhile is_space (rev (dropWhile is_space s)))"

definition py_digits :: "string \<Rightarrow> nat option" where
  "py_digits s =
     (let groups = split_on CHR ''_'' s
      in if list_all (\<lambda>g. g \<noteq> [] \<and> list_all (\<lambda>c. digit_val c \<noteq> None) g) groups
         then Some (foldl (\<lambda>n c. 10 * n + the (digit_val c)) 0 (concat groups))
         else None)"

definition py_int :: "string \<Rightarrow> int option" where
  "py_int s =
     (case strip s of
        [] \<Rightarrow> None
      | c # cs \<Rightarrow>
          if c = CHR ''-'' then map_option (\<lambda>n. - int n) (py_digits cs)
          else if c = CHR ''+'' then map_option int (py_digits cs)
          else map_option int (py_digits (c # cs)))"

definition invalid_literal :: "string \<Rightarrow> string" where
  "invalid_literal s = ''invalid literal for int() with base 10: '' @ [CHR 0x27] @ s @ [CHR 0x27]"

text \<open>\<^verbatim>\<open>str(base / filename)\<close> for a file name without a slash.\<close>

definition path_join :: "string \<Rightarrow> string \<Rightarrow> string" where
  "path_join b f =
     (if b = ''.'' then f
      else if b \<noteq> [] \<and> last b = CHR ''/'' then b @ f
      else b @ ''/'' @ f)"

text \<open>\<^verbatim>\<open>Path(p).suffix\<close>: the part of the final component from its last dot on, when
  that dot is neither the first nor the last character of the component.\<close>

definition path_name :: "string \<Rightarrow> string" where
  "path_name p = rev (takeWhile (\<lambda>c. c \<noteq> CHR ''/'') (rev p))"

definition path_suffix :: "string \<Rightarrow> string" where
  "path_suffix p =
     (let name = path_name p;
          tail = rev (takeWhile (\<lambda>c. c \<noteq> CHR ''.'') (rev name))
      in if CHR ''.'' \<in> set name \<and> tail \<noteq> [] \<and> Suc (length tail) < length name
         then CHR ''.'' # tail else [])"

text \<open>\<^verbatim>\<open>base64.b64encode(data).decode('utf-8')\<close>.\<close>

definition b64_char :: "nat \<Rightarrow> char" where
  "b64_char n =
     ''ABCDEFGHIJKLMNOPQRSTUVWXYZabcdefghijklmnopqrstuvwxyz0123456789+/'' ! (n mod 64)"

fun b64encode :: "bytes \<Rightarrow> string" where
  "b64encode [] = []"
| "b64encode [a] =
     (let n = unat a * 65536
      in [b64_char (n div 262144), b64_char (n div 4096), CHR ''='', CHR ''=''])"
| "b64encode [a, b] =
     (let n = unat a * 65536 + unat b * 256
      in [b64_char (n div 262144), b64_char (n div 4096), b64_char (n div 64), CHR ''=''])"
| "b64encode (a # b # c # rest) =
     (let n = unat a * 65536 + unat b * 256 + unat c
      in [b64_char (n div 262144), b64_char (n div 4096), b64_char (n div 64), b64_char n]
         @ b64encode rest)"

text \<open>\<^verbatim>\<open>round(x, 2)\<close>: the nearest multiple of one hundredth, a tie going to the even
  one. The quotient is taken exactly; the binary floating-point representation of the
  result is not modelled.\<close>

definition round_half_even :: "rat \<Rightarrow> int" where
  "round_half_even y =
     (let f = \<lfloor>y\<rfloor>; d = y - of_int f
      in if d < 1 / 2 then f else if 1 / 2 < d then f + 1 else if even f then f else f + 1)"

definition py_round2 :: "rat \<Rightarrow> rat" where
  "py_round2 x = of_int (round_half_even (x * 100)) / 100"

subsection \<open>File system primitives\<close>

definition path_exists :: "string \<Rightarrow> store \<Rightarrow> bool" where
  "path_exists p s = (files s p \<noteq> None)"

text \<open>\<^verbatim>\<open>shutil.copy2(src, dst)\<close>: refuses to copy a file onto itself.\<close>

definition copy2 :: "string \<Rightarrow> string \<Rightarrow> store \<Rightarrow> (error + unit) \<times> store" where
  "copy2 src dst s =
     (case files s src of
        None \<Rightarrow> (Inl (FileNotFoundError src), s)
      | Some content \<Rightarrow>
          if src = dst then (Inl (SameFileError src), s)
          else (Inr (), s\<lparr>files := (files s)(dst \<mapsto> content)\<rparr>))"

text \<open>\<^verbatim>\<open>Path(p).stat().st_size\<close>.\<close>

definition stat_size :: "string \<Rightarrow> store \<Rightarrow> error + nat" where
  "stat_size p s =
     (case files s p of None \<Rightarrow> Inl (FileNotFoundError p) | Some content \<Rightarrow> Inr (length content))"

text \<open>\<^verbatim>\<open>os.remove(p)\<close>.\<close>

definition os_remove :: "string \<Rightarrow> store \<Rightarrow> (error + unit) \<times> store" where
  "os_remove p s =
     (if files s p = None then (Inl (FileNotFoundError p), s)
      else if p \<in> undeletable s then (Inl (OSError p), s)
      else (Inr (), s\<lparr>files := (files s)(p := None)\<rparr>))"

text \<open>A file removed behind the store's back.\<close>

definition delete_out_of_band :: "string \<Rightarrow> store \<Rightarrow> store" where
  "delete_out_of_band p s = s\<lparr>files := (files s)(p := None)\<rparr>"

subsection \<open>The class MediaStorage\<close>

text \<open>The dictionary that \<^verbatim>\<open>json.dump(self.index, ...)\<close> serialises: every key with the
  current value of its metadata object.\<close>

definition index_snapshot :: "store \<Rightarrow> (string \<times> media_info) list" where
  "index_snapshot s = map (\<lambda>(key, r). (key, heap s r)) (index s)"

definition save_index :: "store \<Rightarrow> (error + unit) \<times> store" where
  "save_index s =
     (if index_writable s
      then (Inr (), s\<lparr>index_file := IndexJson (index_snapshot s),
                      index_writes := Suc (index_writes s)\<rparr>)
      else (Inl (IOError ''index.json''), s))"

definition get_key :: "int \<Rightarrow> int \<Rightarrow> string" where
  "get_key c m = str_int c @ ''|'' @ str_int m"

definition get_file_path :: "store \<Rightarrow> int \<Rightarrow> int \<Rightarrow> string \<Rightarrow> string" where
  "get_file_path s c m ext =
     path_join (base_dir s) (''chat'' @ str_int c @ ''_msg'' @ str_int m @ ext)"

text \<open>\<^verbatim>\<open>self.index[key] = {...}\<close>: a fresh dictionary object is bound to the key.\<close>

definition index_set :: "string \<Rightarrow> media_info \<Rightarrow> store \<Rightarrow> store" where
  "index_set key info s =
     s\<lparr>index := AList.update key (next_ref s) (index s),
       heap := (heap s)(next_ref s := info),
       next_ref := Suc (next_ref s)\<rparr>"

definition ext_map :: "(string \<times> string) list" where
  "ext_map =
     [(''image/jpeg'', ''.jpg''),
      (''image/png'', ''.png''),
      (''image/gif'', ''.gif''),
      (''image/webp'', ''.webp''),
      (''video/mp4'', ''.mp4''),
      (''audio/mpeg'', ''.mp3''),
      (''audio/ogg'', ''.ogg''),
      (''application/pdf'', ''.pdf'')]"

definition resolve_mime :: "(string \<Rightarrow> string option) \<Rightarrow> string \<Rightarrow> string option \<Rightarrow> string" where
  "resolve_mime guess_type source_path mime =
     (case mime of
        Some m \<Rightarrow> m
      | None \<Rightarrow> (case guess_type source_path of
                   Some g \<Rightarrow> g
                 | None \<Rightarrow> ''application/octet-stream''))"

definition resolve_extension :: "string \<Rightarrow> string \<Rightarrow> string" where
  "resolve_extension source_path mime =
     (if path_suffix source_path = []
      then (case map_of ext_map mime of Some e \<Rightarrow> e | None \<Rightarrow> ''.bin'')
      else path_suffix source_path)"

definition save_media ::
  "(string \<Rightarrow> string option) \<Rightarrow> string \<Rightarrow> int \<Rightarrow> int \<Rightarrow> string \<Rightarrow> string option \<Rightarrow> store
     \<Rightarrow> (error + string) \<times> store" where
  "save_media guess_type now c m source_path mime s =
     (if \<not> path_exists source_path s
      then (Inl (FileNotFoundError (''Source file not found: '' @ source_path)), s)
      else
        let mime' = resolve_mime guess_type source_path mime;
            ext = resolve_extension source_path mime';
            dest_path = get_file_path s c m ext
        in case copy2 source_path dest_path s of
             (Inl e, s1) \<Rightarrow> (Inl e, s1)
           | (Inr _, s1) \<Rightarrow>
               (case stat_size dest_path s1 of
                  Inl e \<Rightarrow> (Inl e, s1)
                | Inr file_size \<Rightarrow>
                    (case save_index
                            (index_set (get_key c m)
                               \<lparr>path = dest_path, mime_type = mime', timestamp = now,
                                size_field = file_size, extension = ext,
                                chat_id = None, message_id = None\<rparr> s1) of
                       (Inl e, s2) \<Rightarrow> (Inl e, s2)
                     | (Inr _, s2) \<Rightarrow> (Inr dest_path, s2))))"

definition get_media :: "store \<Rightarrow> int \<Rightarrow> int \<Rightarrow> ref option" where
  "get_media s c m = map_of (index s) (get_key c m)"

definition get_media_path :: "store \<Rightarrow> int \<Rightarrow> int \<Rightarrow> string option" where
  "get_media_path s c m =
     (case get_media s c m of
        None \<Rightarrow> None
      | Some r \<Rightarrow> if path_exists (path (heap s r)) s then Some (path (heap s r)) else None)"

text \<open>The loop of \<^verbatim>\<open>list_media\<close> over \<^verbatim>\<open>self.index.items()\<close>. The two assignments
  \<^verbatim>\<open>media_info["chat_id"] = ...\<close> and \<^verbatim>\<open>media_info["message_id"] = ...\<close> write through the
  reference.\<close>

definition heap_upd :: "ref \<Rightarrow> (media_info \<Rightarrow> media_info) \<Rightarrow> store \<Rightarrow> store" where
  "heap_upd r f s = s\<lparr>heap := (heap s)(r := f (heap s r))\<rparr>"

fun list_loop ::
  "(string \<times> ref) list \<Rightarrow> ref list \<Rightarrow> string list \<Rightarrow> store
     \<Rightarrow> (error + ref list \<times> string list) \<times> store" where
  "list_loop [] valid_media stale_keys s = (Inr (valid_media, stale_keys), s)"
| "list_loop ((key, r) # items) valid_media stale_keys s =
     (if path_exists (path (heap s r)) s then
        (case split_on CHR ''|'' key of
           [cs, ms] \<Rightarrow>
             (case py_int cs of
                None \<Rightarrow> (Inl (ValueError (invalid_literal cs)), s)
              | Some c \<Rightarrow>
                  (case py_int ms of
                     None \<Rightarrow>
                       (Inl (ValueError (invalid_literal ms)),
                        heap_upd r (\<lambda>i. i\<lparr>chat_id := Some c\<rparr>) s)
                   | Some m \<Rightarrow>
                       list_loop items (valid_media @ [r]) stale_keys
                         (heap_upd r (\<lambda>i. i\<lparr>message_id := Some m\<rparr>)
                            (heap_upd r (\<lambda>i. i\<lparr>chat_id := Some c\<rparr>) s))))
         | [_] \<Rightarrow> (Inl (ValueError ''not enough values to unpack (expected 2, got 1)''), s)
         | _ \<Rightarrow> (Inl (ValueError ''too many values to unpack (expected 2)''), s))
      else list_loop items valid_media (stale_keys @ [key]) s)"

definition list_media :: "store \<Rightarrow> (error + ref list) \<times> store" where
  "list_media s =
     (case list_loop (index s) [] [] s of
        (Inl e, s1) \<Rightarrow> (Inl e, s1)
      | (Inr (valid_media, stale_keys), s1) \<Rightarrow>
          if stale_keys \<noteq> [] then
            (case save_index (s1\<lparr>index := fold AList.delete stale_keys (index s1)\<rparr>) of
               (Inl e, s2) \<Rightarrow> (Inl e, s2)
             | (Inr _, s2) \<Rightarrow> (Inr valid_media, s2))
          else (Inr valid_media, s1))"

definition delete_media :: "store \<Rightarrow> int \<Rightarrow> int \<Rightarrow> (error + bool) \<times> store" where
  "delete_media s c m =
     (case map_of (index s) (get_key c m) of
        None \<Rightarrow> (Inr False, s)
      | Some r \<Rightarrow>
          let file_path = path (heap s r);
              s1 = (if path_exists file_path s then snd (os_remove file_path s) else s)
          in (case save_index (s1\<lparr>index := AList.delete (get_key c m) (index s1)\<rparr>) of
                (Inl e, s2) \<Rightarrow> (Inl e, s2)
              | (Inr _, s2) \<Rightarrow> (Inr True, s2)))"

fun clear_loop :: "ref list \<Rightarrow> nat \<Rightarrow> store \<Rightarrow> nat \<times> store" where
  "clear_loop [] deleted_count s = (deleted_count, s)"
| "clear_loop (r # rs) deleted_count s =
     (let file_path = path (heap s r)
      in if path_exists file_path s then
           (case os_remove file_path s of
              (Inl e, s1) \<Rightarrow> clear_loop rs deleted_count s1
            | (Inr _, s1) \<Rightarrow> clear_loop rs (deleted_count + 1) s1)
         else clear_loop rs deleted_count s)"

definition clear_all_media :: "store \<Rightarrow> (error + nat) \<times> store" where
  "clear_all_media s =
     (case clear_loop (map snd (index s)) 0 s of
        (deleted_count, s1) \<Rightarrow>
          (case save_index (s1\<lparr>index := []\<rparr>) of
             (Inl e, s2) \<Rightarrow> (Inl e, s2)
           | (Inr _, s2) \<Rightarrow> (Inr deleted_count, s2)))"

definition get_storage_stats :: "store \<Rightarrow> (error + storage_stats) \<times> store" where
  "get_storage_stats s =
     (case list_media s of
        (Inl e, s1) \<Rightarrow> (Inl e, s1)
      | (Inr media_list, s1) \<Rightarrow>
          let total_size = sum_list (map (\<lambda>r. size_field (heap s1 r)) media_list)
          in (Inr \<lparr>total_files = length media_list,
                   total_size_bytes = total_size,
                   total_size_mb = py_round2 (of_nat total_size / (1024 * 1024)),
                   storage_path = base_dir s1\<rparr>, s1))"

subsection \<open>The resource handler of main.py\<close>

definition error_str :: "error \<Rightarrow> string" where
  "error_str e =
     (case e of FileNotFoundError t \<Rightarrow> t | SameFileError t \<Rightarrow> t | IOError t \<Rightarrow> t
      | OSError t \<Rightarrow> t | ValueError t \<Rightarrow> t)"

definition serve_media :: "string \<Rightarrow> string \<Rightarrow> store \<Rightarrow> error + blob_resource_contents list" where
  "serve_media cs ms s =
     (case py_int cs of
        None \<Rightarrow> Inl (ValueError (invalid_literal cs))
      | Some c \<Rightarrow>
          (case py_int ms of
             None \<Rightarrow> Inl (ValueError (invalid_literal ms))
           | Some m \<Rightarrow>
               (case get_media s c m of
                  None \<Rightarrow>
                    Inl (ValueError (''Media not found: '' @ cs @ ''/'' @ ms @ ''. Download it first.''))
                | Some r \<Rightarrow>
                    (case files s (path (heap s r)) of
                       None \<Rightarrow> Inl (ValueError (''Media file not found at '' @ path (heap s r)))
                     | Some blob_data \<Rightarrow>
                         Inr [\<lparr>uri = ''tgfile://'' @ cs @ ''/'' @ ms,
                               blob = b64encode blob_data,
                               mimeType = mime_type (heap s r)\<rparr>]))))"

definition get_telegram_media ::
  "string \<Rightarrow> string \<Rightarrow> store \<Rightarrow> error + blob_resource_contents list" where
  "get_telegram_media cs ms s =
     (case serve_media cs ms s of
        Inl e \<Rightarrow> Inl (ValueError (''Failed to serve media resource: '' @ error_str e))
      | Inr res \<Rightarrow> Inr res)"

subsection \<open>Construction, restart and the reachable states\<close>

text \<open>The value of a heap cell no dictionary has been allocated in; it is never read.\<close>

definition blank_info :: media_info where
  "blank_info = \<lparr>path = [], mime_type = [], timestamp = [], size_field = 0, extension = [],
                  chat_id = None, message_id = None\<rparr>"

text \<open>\<^verbatim>\<open>json.load\<close> builds the dictionary pair by pair, each value a new object.\<close>

fun load_entries :: "(string \<times> media_info) list \<Rightarrow> store \<Rightarrow> store" where
  "load_entries [] s = s"
| "load_entries ((key, info) # kvs) s = load_entries kvs (index_set key info s)"

definition load_index :: "store \<Rightarrow> store" where
  "load_index s =
     (case index_file s of
        IndexJson kvs \<Rightarrow> load_entries kvs (s\<lparr>index := []\<rparr>)
      | _ \<Rightarrow> s\<lparr>index := []\<rparr>)"

text \<open>\<^verbatim>\<open>MediaStorage(base_dir)\<close> in an environment: the files present, the content of
  the index file, and the environment's two decisions.\<close>

definition media_storage ::
  "string \<Rightarrow> (string \<Rightarrow> bytes option) \<Rightarrow> index_json \<Rightarrow> string set \<Rightarrow> bool \<Rightarrow> store" where
  "media_storage base fs idx undel writable =
     load_index \<lparr>base_dir = base, index = [], heap = (\<lambda>_. blank_info), next_ref = 0,
                 files = fs, index_file = idx, index_writes = 0,
                 undeletable = undel, index_writable = writable\<rparr>"

text \<open>A new process on the same directory: the in-memory index is lost and read again
  from the index file.\<close>

definition restart :: "store \<Rightarrow> store" where
  "restart s =
     media_storage (base_dir s) (files s) (index_file s) (undeletable s) (index_writable s)"

text \<open>What \<^verbatim>\<open>list_media\<close> does with a key: split at the bar, read two integers.\<close>

definition parse_key :: "string \<Rightarrow> (int \<times> int) option" where
  "parse_key key =
     (case split_on CHR ''|'' key of
        [cs, ms] \<Rightarrow>
          (case py_int cs of
             None \<Rightarrow> None
           | Some c \<Rightarrow> (case py_int ms of None \<Rightarrow> None | Some m \<Rightarrow> Some (c, m)))
      | _ \<Rightarrow> None)"

text \<open>An index entry as \<open>save_media\<close> makes it: the key is the one \<open>get_key\<close> builds for
  some pair, the path is the one \<open>get_file_path\<close> builds for that pair and the
  recorded extension, and the extension starts with a dot.\<close>

definition entry_ok :: "string \<Rightarrow> string \<Rightarrow> media_info \<Rightarrow> bool" where
  "entry_ok base key info =
     (case parse_key key of
        None \<Rightarrow> False
      | Some (c, m) \<Rightarrow>
          key = get_key c m \<and>
          path info = path_join base (''chat'' @ str_int c @ ''_msg'' @ str_int m @ extension info) \<and>
          take 1 (extension info) = ''.'')"

definition index_file_ok :: "string \<Rightarrow> index_json \<Rightarrow> bool" where
  "index_file_ok base idx =
     (case idx of
        IndexJson kvs \<Rightarrow> distinct (map fst kvs) \<and> list_all (\<lambda>(key, info). entry_ok base key info) kvs
      | _ \<Rightarrow> True)"

definition store_inv :: "store \<Rightarrow> bool" where
  "store_inv s =
     (distinct (map fst (index s)) \<and>
      distinct (map snd (index s)) \<and>
      list_all (\<lambda>(key, r). r < next_ref s \<and> entry_ok (base_dir s) key (heap s r)) (index s) \<and>
      index_file_ok (base_dir s) (index_file s))"

text \<open>The states a store can be in: constructed on a directory whose index file, if
  any, an earlier store wrote; then any sequence of operations, restarts, and changes
  the environment makes to the attachment files and to its own decisions.\<close>

inductive reachable :: "store \<Rightarrow> bool" where
  construct: "index_file_ok base idx \<Longrightarrow> reachable (media_storage base fs idx undel writable)"
| save: "reachable s \<Longrightarrow> reachable (snd (save_media guess_type now c m source_path mime s))"
| list: "reachable s \<Longrightarrow> reachable (snd (list_media s))"
| delete: "reachable s \<Longrightarrow> reachable (snd (delete_media s c m))"
| clear: "reachable s \<Longrightarrow> reachable (snd (clear_all_media s))"
| stats: "reachable s \<Longrightarrow> reachable (snd (get_storage_stats s))"
| restart: "reachable s \<Longrightarrow> reachable (restart s)"
| environment:
    "reachable s \<Longrightarrow> reachable (s\<lparr>files := fs, undeletable := undel, index_writable := writable\<rparr>)"

subsection \<open>Example environment\<close>

definition demo_guess :: "string \<Rightarrow> string option" where
  "demo_guess p =
     (if path_suffix p = ''.jpg'' then Some ''image/jpeg''
      else if path_suffix p = ''.png'' then Some ''image/png''
      else None)"

definition demo_files :: "string \<Rightarrow> bytes option" where
  "demo_files = [''/tmp/photo.jpg'' \<mapsto> [0xFF, 0xD8, 0xFF], ''/tmp/photo.png'' \<mapsto> [0x89, 0x50]]"

definition demo_store :: store where
  "demo_store = media_storage ''/media'' demo_files NoFile {} True"

text \<open>The state a successful \<open>save_media\<close> leaves before the index is written out.\<close>

definition saved_state ::
  "string \<Rightarrow> int \<Rightarrow> int \<Rightarrow> string \<Rightarrow> string \<Rightarrow> string \<Rightarrow> bytes \<Rightarrow> store \<Rightarrow> store" where
  "saved_state now c m dest mime' ext content s =
     index_set (get_key c m)
       \<lparr>path = dest, mime_type = mime', timestamp = now, size_field = length content,
        extension = ext, chat_id = None, message_id = None\<rparr>
       (s\<lparr>files := (files s)(dest \<mapsto> content)\<rparr>)"

definition demo_now :: string where
  "demo_now = ''2025-01-01T12:00:00''"

definition demo_saved :: store where
  "demo_saved = snd (save_media demo_guess demo_now 100 5 ''/tmp/photo.jpg'' None demo_store)"

definition demo_locked :: store where
  "demo_locked = demo_saved\<lparr>undeletable := {''/media/chat100_msg5.jpg''}\<rparr>"

definition demo_stale :: store where
  "demo_stale = delete_out_of_band ''/media/chat100_msg5.jpg'' demo_saved"

subsection \<open>Reading an error message\<close>

text \<open>\<open>mentions pat t\<close>: the text \<open>t\<close> contains \<open>pat\<close>.\<close>

fun mentions :: "string \<Rightarrow> string \<Rightarrow> bool" where
  "mentions pat [] = (pat = [])"
| "mentions pat (c # cs) = (take (length pat) (c # cs) = pat \<or> mentions pat cs)"

declare mentions.simps [simp del]

text \<open>The condition the resource boundary promises when an attachment cannot be served:
  a failure whose message says that the attachment was not found, tells the caller to
  download it first, and names the address by its two components.\<close>

definition download_first_condition ::
  "string \<Rightarrow> string \<Rightarrow> error + blob_resource_contents list \<Rightarrow> bool" where
  "download_first_condition cs ms res =
     (case res of
        Inl e \<Rightarrow> mentions ''not found'' (error_str e) \<and>
                 mentions ''Download it first'' (error_str e) \<and>
                 mentions (cs @ ''/'' @ ms) (error_str e)
      | Inr _ \<Rightarrow> False)"

subsection \<open>Describing a listing pass\<close>

text \<open>An index entry is valid when the file its metadata names exists.\<close>

definition entry_valid :: "store \<Rightarrow> string \<times> ref \<Rightarrow> bool" where
  "entry_valid s e = path_exists (path (heap s (snd e))) s"

text \<open>The two assignments \<open>list_loop\<close> makes through a reference.\<close>

definition annotate :: "ref \<Rightarrow> int \<Rightarrow> int \<Rightarrow> store \<Rightarrow> store" where
  "annotate r c m s =
     heap_upd r (\<lambda>i. i\<lparr>message_id := Some m\<rparr>) (heap_upd r (\<lambda>i. i\<lparr>chat_id := Some c\<rparr>) s)"

text \<open>Two states that differ at most in the \<open>chat_id\<close> and \<open>message_id\<close> of metadata
  objects.\<close>

definition same_but_ids :: "store \<Rightarrow> store \<Rightarrow> bool" where
  "same_but_ids s s' =
     (s' = s\<lparr>heap := heap s'\<rparr> \<and>
      (\<forall>r. heap s' r = (heap s r)\<lparr>chat_id := chat_id (heap s' r),
                                   message_id := message_id (heap s' r)\<rparr>))"

text \<open>A persisted entry that carries the two extra fields, holding the integers its key
  reads as.\<close>

definition carries_ids :: "string \<times> media_info \<Rightarrow> bool" where
  "carries_ids e =
     (case parse_key (fst e) of
        None \<Rightarrow> False
      | Some (c, m) \<Rightarrow> chat_id (snd e) = Some c \<and> message_id (snd e) = Some m)"

definition demo_listed :: store where
  "demo_listed = snd (list_media demo_saved)"

section \<open>Integers as strings, keys and paths\<close>

lemma digit_char_mem: "n < 10 \<Longrightarrow> digit_char n \<in> set ''0123456789''"
  unfolding digit_char_def by (rule nth_mem) simp

lemma digit_val_digit_char: "n < 10 \<Longrightarrow> digit_val (digit_char n) = Some n"
proof -
  assume n: "n < 10"
  have "map_of (zip ''0123456789'' [0..<10]) (''0123456789'' ! n) = Some ([0..<10] ! n)"
    by (rule map_of_zip_nth) (use n in simp_all)
  then show ?thesis using n by (simp add: digit_char_def digit_val_def del: upt.simps)
qed

lemma digits_set: "set (digits n) \<subseteq> set ''0123456789''"
proof (induction n rule: digits.induct)
  case (1 n)
  show ?case
  proof (cases "n < 10")
    case True
    then show ?thesis using digit_char_mem [of n] by (subst digits.simps) simp
  next
    case False
    have "n mod 10 < 10" by simp
    then have "digit_char (n mod 10) \<in> set ''0123456789''" by (rule digit_char_mem)
    with False 1 show ?thesis by (subst digits.simps) simp
  qed
qed

lemma digits_nonempty: "digits n \<noteq> []"
  by (subst digits.simps) simp

lemma digits_all_digit: "list_all (\<lambda>c. digit_val c \<noteq> None) (digits n)"
proof -
  have "\<And>c. c \<in> set ''0123456789'' \<Longrightarrow> digit_val c \<noteq> None"
    by (auto simp: digit_val_def)
  then show ?thesis using digits_set [of n] unfolding list_all_iff by blast
qed

lemma digits_value:
  "foldl (\<lambda>n c. 10 * n + the (digit_val c)) a (digits n) = a * 10 ^ length (digits n) + n"
proof (induction n arbitrary: a rule: digits.induct)
  case (1 n)
  show ?case
  proof (cases "n < 10")
    case True
    then show ?thesis by (subst (1 2) digits.simps) (simp add: digit_val_digit_char)
  next
    case False
    have "foldl (\<lambda>n c. 10 * n + the (digit_val c)) a (digits n)
        = 10 * foldl (\<lambda>n c. 10 * n + the (digit_val c)) a (digits (n div 10)) + n mod 10"
      using False by (subst digits.simps) (simp add: digit_val_digit_char)
    also have "\<dots> = 10 * (a * 10 ^ length (digits (n div 10)) + n div 10) + n mod 10"
      using 1 [OF False] by simp
    also have "\<dots> = a * 10 ^ length (digits n) + n"
      using False by (subst (2) digits.simps) (simp add: algebra_simps)
    finally show ?thesis .
  qed
qed

lemma split_on_absent: "d \<notin> set s \<Longrightarrow> split_on d s = [s]"
  by (induction s) auto

lemma split_on_first: "d \<notin> set a \<Longrightarrow> split_on d (a @ d # b) = a # split_on d b"
  by (induction a) auto

lemma strip_id:
  assumes "s \<noteq> []" "\<not> is_space (hd s)" "\<not> is_space (last s)"
  shows "strip s = s"
proof -
  have 1: "dropWhile is_space s = s" using assms by (simp add: dropWhile_eq_self_iff)
  have "hd (rev s) = last s" using assms by (simp add: hd_rev)
  then have 2: "dropWhile is_space (rev s) = rev s" using assms by (simp add: dropWhile_eq_self_iff)
  show ?thesis by (simp add: strip_def 1 2)
qed

lemma py_digits_digits: "py_digits (digits n) = Some n"
proof -
  have "CHR ''_'' \<notin> set (digits n)" using digits_set [of n] by auto
  then have "split_on CHR ''_'' (digits n) = [digits n]" by (rule split_on_absent)
  then show ?thesis
    using digits_all_digit [of n]
    by (simp add: py_digits_def digits_nonempty digits_value)
qed

lemma digit_not_space: "c \<in> set ''0123456789'' \<Longrightarrow> \<not> is_space c"
  by (auto simp: is_space_def)

lemma hd_digits: "hd (digits n) \<in> set ''0123456789''"
  using digits_set [of n] digits_nonempty [of n] hd_in_set [of "digits n"] by blast

lemma last_digits: "last (digits n) \<in> set ''0123456789''"
  using digits_set [of n] digits_nonempty [of n] last_in_set [of "digits n"] by blast


lemma py_int_str_int: "py_int (str_int i) = Some i"
proof (cases "i < 0")
  case True
  have "\<not> is_space (last (digits (nat (- i))))"
    using last_digits digit_not_space by blast
  then have "strip (CHR ''-'' # digits (nat (- i))) = CHR ''-'' # digits (nat (- i))"
    by (intro strip_id) (simp_all add: digits_nonempty is_space_def)
  with True show ?thesis by (simp add: py_int_def str_int_def py_digits_digits)
next
  case False
  have s: "strip (digits (nat i)) = digits (nat i)"
    using hd_digits [of "nat i"] last_digits [of "nat i"]
    by (intro strip_id digits_nonempty digit_not_space)
  obtain c cs where d: "digits (nat i) = c # cs"
    using digits_nonempty [of "nat i"] by (cases "digits (nat i)") simp_all
  have "c \<in> set ''0123456789''" using hd_digits [of "nat i"] d by simp
  then have "c \<noteq> CHR ''-''" "c \<noteq> CHR ''+''" by auto
  moreover have "py_digits (c # cs) = Some (nat i)" using py_digits_digits [of "nat i"] d by simp
  ultimately show ?thesis using False s d by (simp add: py_int_def str_int_def)
qed

lemma str_int_no_bar: "CHR ''|'' \<notin> set (str_int i)"
  using digits_set [of "nat i"] digits_set [of "nat (- i)"] by (auto simp: str_int_def)

lemma parse_key_get_key: "parse_key (get_key c m) = Some (c, m)"
  by (simp add: parse_key_def get_key_def split_on_first split_on_absent str_int_no_bar py_int_str_int)

lemma get_key_inj: "get_key c m = get_key c' m' \<longleftrightarrow> c = c' \<and> m = m'"
  by (metis parse_key_get_key option.inject prod.inject)

section \<open>Writing the index, saving\<close>

lemma save_index_ok:
  "index_writable s \<Longrightarrow>
   save_index s =
     (Inr (), s\<lparr>index_file := IndexJson (index_snapshot s), index_writes := Suc (index_writes s)\<rparr>)"
  by (simp add: save_index_def)

lemma save_index_fail: "\<not> index_writable s \<Longrightarrow> save_index s = (Inl (IOError ''index.json''), s)"
  by (simp add: save_index_def)

text \<open>A save returns normally exactly when the source exists, is not the destination
  itself, and the index file can be written; the state it leaves is then known.\<close>

lemma save_media_Inr:
  assumes "save_media g now c m src mime s = (Inr p, s')"
  shows "\<exists>content. files s src = Some content \<and> src \<noteq> p \<and> index_writable s \<and>
           p = get_file_path s c m (resolve_extension src (resolve_mime g src mime)) \<and>
           s' = (saved_state now c m p (resolve_mime g src mime)
                   (resolve_extension src (resolve_mime g src mime)) content s)
                \<lparr>index_file := IndexJson (index_snapshot (saved_state now c m p (resolve_mime g src mime)
                   (resolve_extension src (resolve_mime g src mime)) content s)),
                  index_writes := Suc (index_writes s)\<rparr>"
  using assms
  by (auto simp: save_media_def path_exists_def copy2_def stat_size_def save_index_def Let_def
        saved_state_def index_set_def get_file_path_def
      split: if_splits option.splits prod.splits sum.splits)

lemma save_media_succeeds:
  assumes "files s src = Some content" "index_writable s"
      and "src \<noteq> get_file_path s c m (resolve_extension src (resolve_mime g src mime))"
  shows "\<exists>s'. save_media g now c m src mime s =
           (Inr (get_file_path s c m (resolve_extension src (resolve_mime g src mime))), s')"
  using assms
  by (simp add: save_media_def path_exists_def copy2_def stat_size_def save_index_def Let_def
        index_set_def get_file_path_def)

lemma saved_state_fields:
  "base_dir (saved_state now c m dest mime' ext content s) = base_dir s"
  "index (saved_state now c m dest mime' ext content s) = AList.update (get_key c m) (next_ref s) (index s)"
  "heap (saved_state now c m dest mime' ext content s) =
     (heap s)(next_ref s := \<lparr>path = dest, mime_type = mime', timestamp = now,
        size_field = length content, extension = ext, chat_id = None, message_id = None\<rparr>)"
  "next_ref (saved_state now c m dest mime' ext content s) = Suc (next_ref s)"
  "files (saved_state now c m dest mime' ext content s) = (files s)(dest \<mapsto> content)"
  "index_file (saved_state now c m dest mime' ext content s) = index_file s"
  "index_writes (saved_state now c m dest mime' ext content s) = index_writes s"
  "undeletable (saved_state now c m dest mime' ext content s) = undeletable s"
  "index_writable (saved_state now c m dest mime' ext content s) = index_writable s"
  by (simp_all add: saved_state_def index_set_def)

lemma map_of_update_same: "map_of (AList.update k v al) k = Some v"
  by (simp add: update_conv')

subsection \<open>The example store\<close>

lemma str_int_100: "str_int 100 = ''100''"
  by code_simp

lemma str_int_5: "str_int 5 = ''5''"
  by code_simp

lemma get_key_100_5: "get_key 100 5 = ''100|5''"
  by code_simp

lemma suffix_photo: "path_suffix ''/tmp/photo.jpg'' = ''.jpg''"
  by code_simp

lemma demo_guess_photo: "demo_guess ''/tmp/photo.jpg'' = Some ''image/jpeg''"
  by code_simp

lemma demo_store_fields:
  "base_dir demo_store = ''/media''" "index demo_store = []" "next_ref demo_store = 0"
  "files demo_store = demo_files" "index_file demo_store = NoFile" "index_writes demo_store = 0"
  "undeletable demo_store = {}" "index_writable demo_store"
  by (simp_all add: demo_store_def media_storage_def load_index_def)

lemma demo_files_photo: "demo_files ''/tmp/photo.jpg'' = Some [0xFF, 0xD8, 0xFF]"
  by (simp add: demo_files_def)

lemma demo_save_result:
  "fst (save_media demo_guess demo_now 100 5 ''/tmp/photo.jpg'' None demo_store)
     = Inr ''/media/chat100_msg5.jpg''"
  by (simp add: save_media_def path_exists_def copy2_def stat_size_def save_index_def Let_def
        index_set_def get_file_path_def demo_store_fields demo_files_photo resolve_mime_def
        resolve_extension_def suffix_photo demo_guess_photo str_int_100 str_int_5 path_join_def)

lemma demo_save_eq:
  "save_media demo_guess demo_now 100 5 ''/tmp/photo.jpg'' None demo_store
     = (Inr ''/media/chat100_msg5.jpg'', demo_saved)"
  using demo_save_result by (simp add: demo_saved_def prod_eq_iff)

section \<open>Claims about saving\<close>

text \<open>
  C8. Save atomicity on a missing source: when \<open>source_path\<close> names no existing file,
  \<open>save_media\<close> fails with \<^verbatim>\<open>FileNotFoundError\<close> and the whole state (in-memory index
  and its metadata objects, the persisted index file, the attachment files) is exactly
  the state before the call.
\<close>

theorem save_missing_source_no_partial_state:
  assumes "\<not> path_exists source_path s"
  shows "save_media guess_type now c m source_path mime s
           = (Inl (FileNotFoundError (''Source file not found: '' @ source_path)), s)"
  using assms by (simp add: save_media_def)

theorem save_missing_source_witness:
  "\<not> path_exists ''/tmp/absent.jpg'' demo_store \<and>
   save_media demo_guess demo_now 100 5 ''/tmp/absent.jpg'' None demo_store
     = (Inl (FileNotFoundError ''Source file not found: /tmp/absent.jpg''), demo_store)"
proof -
  have h: "\<not> path_exists ''/tmp/absent.jpg'' demo_store"
    by (simp add: path_exists_def demo_store_fields demo_files_def)
  from save_missing_source_no_partial_state [OF h, of demo_guess demo_now 100 5 None] h
  show ?thesis by simp
qed



text \<open>
  C7. Save resolution and deterministic addressing: the record a returning save stores
  has as \<open>mime_type\<close> the supplied type if one was given, else the type guessed from
  the source path, else \<^verbatim>\<open>application/octet-stream\<close>; as \<open>extension\<close> the suffix of the
  source path if it has one, else the entry of the eight-entry table for the resolved
  type, else \<^verbatim>\<open>.bin\<close>; as \<open>size\<close> the length of the copied bytes; and as \<open>path\<close>
  (the path returned) the base directory joined with
  \<^verbatim>\<open>chat{chat_id}_msg{message_id}{extension}\<close>. In particular a three-byte source with
  suffix \<^verbatim>\<open>.jpg\<close> that is guessed as \<^verbatim>\<open>image/jpeg\<close>, saved for \<open>(100, 5)\<close> without a
  MIME type, is recorded with \<^verbatim>\<open>image/jpeg\<close>, \<^verbatim>\<open>.jpg\<close>, size 3 and the file name
  \<^verbatim>\<open>chat100_msg5.jpg\<close>.
\<close>

theorem save_resolution_and_addressing:
  assumes "save_media guess_type now c m source_path mime s = (Inr p, s')"
  shows "\<exists>r content.
           get_media s' c m = Some r \<and> files s source_path = Some content \<and>
           mime_type (heap s' r) =
             (case mime of
                Some t \<Rightarrow> t
              | None \<Rightarrow> (case guess_type source_path of
                           Some t \<Rightarrow> t
                         | None \<Rightarrow> ''application/octet-stream'')) \<and>
           extension (heap s' r) =
             (if path_suffix source_path \<noteq> [] then path_suffix source_path
              else (case map_of [(''image/jpeg'', ''.jpg''), (''image/png'', ''.png''),
                                 (''image/gif'', ''.gif''), (''image/webp'', ''.webp''),
                                 (''video/mp4'', ''.mp4''), (''audio/mpeg'', ''.mp3''),
                                 (''audio/ogg'', ''.ogg''), (''application/pdf'', ''.pdf'')]
                           (mime_type (heap s' r)) of
                      Some e \<Rightarrow> e
                    | None \<Rightarrow> ''.bin'')) \<and>
           size_field (heap s' r) = length content \<and>
           timestamp (heap s' r) = now \<and>
           path (heap s' r) =
             path_join (base_dir s)
               (''chat'' @ str_int c @ ''_msg'' @ str_int m @ extension (heap s' r)) \<and>
           p = path (heap s' r) \<and>
           (c = 100 \<and> m = 5 \<and> mime = None \<and> length content = 3 \<and>
            path_suffix source_path = ''.jpg'' \<and> guess_type source_path = Some ''image/jpeg''
            \<longrightarrow> heap s' r =
                  \<lparr>path = path_join (base_dir s) ''chat100_msg5.jpg'', mime_type = ''image/jpeg'',
                   timestamp = now, size_field = 3, extension = ''.jpg'',
                   chat_id = None, message_id = None\<rparr>)"
proof -
  from save_media_Inr [OF assms] obtain content where
    c: "files s source_path = Some content" and
    p: "p = get_file_path s c m (resolve_extension source_path (resolve_mime guess_type source_path mime))" and
    s': "s' = (saved_state now c m p (resolve_mime guess_type source_path mime)
                 (resolve_extension source_path (resolve_mime guess_type source_path mime)) content s)
              \<lparr>index_file := IndexJson (index_snapshot (saved_state now c m p
                 (resolve_mime guess_type source_path mime)
                 (resolve_extension source_path (resolve_mime guess_type source_path mime)) content s)),
                index_writes := Suc (index_writes s)\<rparr>"
    by blast
  have g: "get_media s' c m = Some (next_ref s)"
    by (simp add: s' get_media_def saved_state_fields map_of_update_same)
  have h: "heap s' (next_ref s) =
             \<lparr>path = p, mime_type = resolve_mime guess_type source_path mime, timestamp = now,
              size_field = length content,
              extension = resolve_extension source_path (resolve_mime guess_type source_path mime),
              chat_id = None, message_id = None\<rparr>"
    by (simp add: s' saved_state_fields)
  have m: "resolve_mime guess_type source_path mime =
             (case mime of Some t \<Rightarrow> t
              | None \<Rightarrow> (case guess_type source_path of Some t \<Rightarrow> t
                         | None \<Rightarrow> ''application/octet-stream''))"
    by (simp add: resolve_mime_def)
  have e: "resolve_extension source_path (resolve_mime guess_type source_path mime) =
             (if path_suffix source_path \<noteq> [] then path_suffix source_path
              else (case map_of [(''image/jpeg'', ''.jpg''), (''image/png'', ''.png''),
                                 (''image/gif'', ''.gif''), (''image/webp'', ''.webp''),
                                 (''video/mp4'', ''.mp4''), (''audio/mpeg'', ''.mp3''),
                                 (''audio/ogg'', ''.ogg''), (''application/pdf'', ''.pdf'')]
                           (resolve_mime guess_type source_path mime) of
                      Some e \<Rightarrow> e | None \<Rightarrow> ''.bin''))"
    by (simp add: resolve_extension_def ext_map_def)
  have q: "p = path_join (base_dir s) (''chat'' @ str_int c @ ''_msg'' @ str_int m @
             resolve_extension source_path (resolve_mime guess_type source_path mime))"
    by (simp add: p get_file_path_def)
  have hm: "mime_type (heap s' (next_ref s)) = resolve_mime guess_type source_path mime"
    and he: "extension (heap s' (next_ref s)) =
               resolve_extension source_path (resolve_mime guess_type source_path mime)"
    and sz: "size_field (heap s' (next_ref s)) = length content"
    and ts: "timestamp (heap s' (next_ref s)) = now"
    and pp: "p = path (heap s' (next_ref s))"
    by (simp_all add: h)
  have mt: "mime_type (heap s' (next_ref s)) =
             (case mime of Some t \<Rightarrow> t
              | None \<Rightarrow> (case guess_type source_path of Some t \<Rightarrow> t
                         | None \<Rightarrow> ''application/octet-stream''))"
    unfolding hm by (rule m)
  have ex: "extension (heap s' (next_ref s)) =
             (if path_suffix source_path \<noteq> [] then path_suffix source_path
              else (case map_of [(''image/jpeg'', ''.jpg''), (''image/png'', ''.png''),
                                 (''image/gif'', ''.gif''), (''image/webp'', ''.webp''),
                                 (''video/mp4'', ''.mp4''), (''audio/mpeg'', ''.mp3''),
                                 (''audio/ogg'', ''.ogg''), (''application/pdf'', ''.pdf'')]
                           (mime_type (heap s' (next_ref s))) of
                      Some e \<Rightarrow> e | None \<Rightarrow> ''.bin''))"
    unfolding hm he by (rule e)
  have pa: "path (heap s' (next_ref s)) =
             path_join (base_dir s)
               (''chat'' @ str_int c @ ''_msg'' @ str_int m @ extension (heap s' (next_ref s)))"
    unfolding he pp [symmetric] by (rule q)
  have sc: "c = 100 \<and> m = 5 \<and> mime = None \<and> length content = 3 \<and>
            path_suffix source_path = ''.jpg'' \<and> guess_type source_path = Some ''image/jpeg''
            \<longrightarrow> heap s' (next_ref s) =
                  \<lparr>path = path_join (base_dir s) ''chat100_msg5.jpg'', mime_type = ''image/jpeg'',
                   timestamp = now, size_field = 3, extension = ''.jpg'',
                   chat_id = None, message_id = None\<rparr>"
    by (simp add: h q resolve_mime_def resolve_extension_def str_int_100 str_int_5)
  show ?thesis
    by (rule exI [of _ "next_ref s"], rule exI [of _ content], intro conjI)
       (rule g c mt ex sz ts pa pp sc)+
qed

theorem save_resolution_witness:
  "save_media demo_guess demo_now 100 5 ''/tmp/photo.jpg'' None demo_store
     = (Inr ''/media/chat100_msg5.jpg'', demo_saved) \<and>
   (\<exists>r. get_media demo_saved 100 5 = Some r \<and>
        heap demo_saved r =
          \<lparr>path = ''/media/chat100_msg5.jpg'', mime_type = ''image/jpeg'', timestamp = demo_now,
           size_field = 3, extension = ''.jpg'', chat_id = None, message_id = None\<rparr>)"
proof -
  from save_resolution_and_addressing [OF demo_save_eq]
  obtain r content where
    "get_media demo_saved 100 5 = Some r" "files demo_store ''/tmp/photo.jpg'' = Some content"
    "(100::int) = 100 \<and> (5::int) = 5 \<and> (None::string option) = None \<and> length content = 3 \<and>
     path_suffix ''/tmp/photo.jpg'' = ''.jpg'' \<and> demo_guess ''/tmp/photo.jpg'' = Some ''image/jpeg''
     \<longrightarrow> heap demo_saved r =
           \<lparr>path = path_join (base_dir demo_store) ''chat100_msg5.jpg'', mime_type = ''image/jpeg'',
            timestamp = demo_now, size_field = 3, extension = ''.jpg'',
            chat_id = None, message_id = None\<rparr>"
    by blast
  then show ?thesis
    using demo_save_eq
    by (auto simp: demo_store_fields demo_files_photo suffix_photo demo_guess_photo path_join_def)
qed

section \<open>Deleting one attachment\<close>

lemma os_remove_frame:
  "base_dir (snd (os_remove p s)) = base_dir s"
  "index (snd (os_remove p s)) = index s"
  "heap (snd (os_remove p s)) = heap s"
  "next_ref (snd (os_remove p s)) = next_ref s"
  "index_file (snd (os_remove p s)) = index_file s"
  "index_writes (snd (os_remove p s)) = index_writes s"
  "undeletable (snd (os_remove p s)) = undeletable s"
  "index_writable (snd (os_remove p s)) = index_writable s"
  by (simp_all add: os_remove_def)

lemma os_remove_files:
  "files (snd (os_remove p s)) = (if p \<in> undeletable s then files s else (files s)(p := None))"
  by (auto simp: os_remove_def)

lemma map_of_delete_same: "map_of (AList.delete k al) k = None"
  by (simp add: delete_conv')

lemma demo_saved_eq:
  "demo_saved =
     (saved_state demo_now 100 5 ''/media/chat100_msg5.jpg'' ''image/jpeg'' ''.jpg''
        [0xFF, 0xD8, 0xFF] demo_store)
     \<lparr>index_file := IndexJson (index_snapshot
        (saved_state demo_now 100 5 ''/media/chat100_msg5.jpg'' ''image/jpeg'' ''.jpg''
           [0xFF, 0xD8, 0xFF] demo_store)),
      index_writes := Suc (index_writes demo_store)\<rparr>"
proof -
  have m: "resolve_mime demo_guess ''/tmp/photo.jpg'' None = ''image/jpeg''"
    by (simp add: resolve_mime_def demo_guess_photo)
  have e: "resolve_extension ''/tmp/photo.jpg'' ''image/jpeg'' = ''.jpg''"
    by (simp add: resolve_extension_def suffix_photo)
  from save_media_Inr [OF demo_save_eq] obtain content where
    c: "files demo_store ''/tmp/photo.jpg'' = Some content" and
    eq: "demo_saved =
      (saved_state demo_now 100 5 ''/media/chat100_msg5.jpg''
         (resolve_mime demo_guess ''/tmp/photo.jpg'' None)
         (resolve_extension ''/tmp/photo.jpg'' (resolve_mime demo_guess ''/tmp/photo.jpg'' None))
         content demo_store)
      \<lparr>index_file := IndexJson (index_snapshot
         (saved_state demo_now 100 5 ''/media/chat100_msg5.jpg''
            (resolve_mime demo_guess ''/tmp/photo.jpg'' None)
            (resolve_extension ''/tmp/photo.jpg'' (resolve_mime demo_guess ''/tmp/photo.jpg'' None))
            content demo_store)),
        index_writes := Suc (index_writes demo_store)\<rparr>"
    by blast
  have "content = [0xFF, 0xD8, 0xFF]"
    using c by (simp add: demo_store_fields demo_files_photo)
  with eq show ?thesis unfolding m e by simp
qed

lemma demo_saved_fields:
  "base_dir demo_saved = ''/media''"
  "index demo_saved = [(''100|5'', 0)]"
  "heap demo_saved 0 =
     \<lparr>path = ''/media/chat100_msg5.jpg'', mime_type = ''image/jpeg'', timestamp = demo_now,
      size_field = 3, extension = ''.jpg'', chat_id = None, message_id = None\<rparr>"
  "next_ref demo_saved = 1"
  "files demo_saved = demo_files(''/media/chat100_msg5.jpg'' \<mapsto> [0xFF, 0xD8, 0xFF])"
  "index_writes demo_saved = 1"
  "undeletable demo_saved = {}"
  "index_writable demo_saved"
  by (simp_all add: demo_saved_eq saved_state_fields demo_store_fields get_key_100_5)

lemma demo_saved_index_file:
  "index_file demo_saved =
     IndexJson [(''100|5'',
       \<lparr>path = ''/media/chat100_msg5.jpg'', mime_type = ''image/jpeg'', timestamp = demo_now,
        size_field = 3, extension = ''.jpg'', chat_id = None, message_id = None\<rparr>)]"
  by (simp add: demo_saved_eq saved_state_fields demo_store_fields get_key_100_5 index_snapshot_def)

text \<open>
  C4. Delete semantics: on a key absent from the index \<open>delete_media\<close> returns
  \<^verbatim>\<open>False\<close> and leaves the whole state as it was. On a present key, when the index file
  can be written, it returns \<^verbatim>\<open>True\<close>, the key is gone from the index, and the index
  file holds the new index; this is so whatever happens to the file (removed, removal
  refused, or already missing). A second delete of the same key then returns \<^verbatim>\<open>False\<close>.
\<close>

theorem delete_semantics:
  "(map_of (index s) (get_key c m) = None \<longrightarrow> delete_media s c m = (Inr False, s)) \<and>
   (\<forall>r. map_of (index s) (get_key c m) = Some r \<and> index_writable s \<longrightarrow>
     (\<exists>s'. delete_media s c m = (Inr True, s') \<and>
           index s' = AList.delete (get_key c m) (index s) \<and>
           get_media s' c m = None \<and>
           index_file s' = IndexJson (index_snapshot s') \<and>
           index_writes s' = Suc (index_writes s) \<and>
           files s' = (if path (heap s r) \<in> undeletable s then files s
                       else (files s)(path (heap s r) := None)) \<and>
           delete_media s' c m = (Inr False, s')))"
proof (intro conjI allI impI)
  assume "map_of (index s) (get_key c m) = None"
  then show "delete_media s c m = (Inr False, s)" by (simp add: delete_media_def)
next
  fix r
  assume a: "map_of (index s) (get_key c m) = Some r \<and> index_writable s"
  define s1 where
    "s1 = (if path_exists (path (heap s r)) s then snd (os_remove (path (heap s r)) s) else s)"
  define s2 where "s2 = s1\<lparr>index := AList.delete (get_key c m) (index s1)\<rparr>"
  define s' where
    "s' = s2\<lparr>index_file := IndexJson (index_snapshot s2), index_writes := Suc (index_writes s2)\<rparr>"
  have f1: "index s1 = index s" "heap s1 = heap s" "index_writable s1 = index_writable s"
    "index_writes s1 = index_writes s"
    by (simp_all add: s1_def os_remove_frame)
  have w: "index_writable s2" using a by (simp add: s2_def f1)
  have d: "delete_media s c m = (Inr True, s')"
    using a save_index_ok [OF w]
    by (simp add: delete_media_def Let_def s1_def [symmetric] s2_def [symmetric] s'_def)
  have i: "index s' = AList.delete (get_key c m) (index s)"
    by (simp add: s'_def s2_def f1)
  have g: "get_media s' c m = None"
    by (simp add: get_media_def i map_of_delete_same)
  have j: "index_file s' = IndexJson (index_snapshot s')"
    by (simp add: s'_def index_snapshot_def)
  have k: "index_writes s' = Suc (index_writes s)"
    by (simp add: s'_def s2_def f1)
  have fl: "files s' = (if path (heap s r) \<in> undeletable s then files s
                        else (files s)(path (heap s r) := None))"
    by (auto simp: s'_def s2_def s1_def os_remove_files path_exists_def)
  have again: "delete_media s' c m = (Inr False, s')"
    using g by (simp add: delete_media_def get_media_def)
  from d i g j k fl again
  show "\<exists>s'. delete_media s c m = (Inr True, s') \<and>
           index s' = AList.delete (get_key c m) (index s) \<and>
           get_media s' c m = None \<and>
           index_file s' = IndexJson (index_snapshot s') \<and>
           index_writes s' = Suc (index_writes s) \<and>
           files s' = (if path (heap s r) \<in> undeletable s then files s
                       else (files s)(path (heap s r) := None)) \<and>
           delete_media s' c m = (Inr False, s')"
    by blast
qed

theorem delete_semantics_witness:
  "map_of (index demo_store) (get_key 100 5) = None \<and>
   delete_media demo_store 100 5 = (Inr False, demo_store) \<and>
   map_of (index demo_locked) (get_key 100 5) = Some 0 \<and> index_writable demo_locked \<and>
   path (heap demo_locked 0) \<in> undeletable demo_locked \<and>
   (\<exists>s'. delete_media demo_locked 100 5 = (Inr True, s') \<and> index s' = [] \<and>
         files s' = files demo_locked \<and> delete_media s' 100 5 = (Inr False, s'))"
proof -
  have h1: "map_of (index demo_store) (get_key 100 5) = None"
    by (simp add: demo_store_fields)
  have h2: "map_of (index demo_locked) (get_key 100 5) = Some 0 \<and> index_writable demo_locked"
    by (simp add: demo_locked_def demo_saved_fields get_key_100_5)
  have h3: "path (heap demo_locked 0) \<in> undeletable demo_locked"
    by (simp add: demo_locked_def demo_saved_fields)
  have i: "AList.delete (get_key 100 5) (index demo_locked) = []"
    by (simp add: demo_locked_def demo_saved_fields get_key_100_5)
  from delete_semantics [of demo_store 100 5] h1
  have "delete_media demo_store 100 5 = (Inr False, demo_store)" by blast
  moreover
  from delete_semantics [of demo_locked 100 5] h2 h3
  have "\<exists>s'. delete_media demo_locked 100 5 = (Inr True, s') \<and> index s' = [] \<and>
         files s' = files demo_locked \<and> delete_media s' 100 5 = (Inr False, s')"
    unfolding i by (metis (full_types))
  ultimately show ?thesis using h1 h2 h3 by blast
qed

section \<open>Serving an attachment as a resource\<close>

lemma mentions_here: "mentions pat (pat @ t)"
proof (cases "pat @ t")
  case Nil
  then show ?thesis by (simp add: mentions.simps)
next
  case (Cons a l)
  have "take (length pat) (pat @ t) = pat" by simp
  then show ?thesis unfolding Cons by (simp add: mentions.simps)
qed

lemma mentions_later: "mentions pat t \<Longrightarrow> mentions pat (a @ t)"
  by (induction a) (simp_all add: mentions.simps)

lemma mentions_infix: "mentions pat (a @ pat @ b)"
  by (rule mentions_later) (rule mentions_here)

lemma demo_stale_fields:
  "index demo_stale = [(''100|5'', 0)]"
  "heap demo_stale 0 =
     \<lparr>path = ''/media/chat100_msg5.jpg'', mime_type = ''image/jpeg'', timestamp = demo_now,
      size_field = 3, extension = ''.jpg'', chat_id = None, message_id = None\<rparr>"
  "files demo_stale ''/media/chat100_msg5.jpg'' = None"
  "index_writable demo_stale"
  by (simp_all add: demo_stale_def delete_out_of_band_def demo_saved_fields)

lemma py_int_100: "py_int ''100'' = Some 100"
  using py_int_str_int [of 100] by (simp add: str_int_100)

lemma py_int_5: "py_int ''5'' = Some 5"
  using py_int_str_int [of 5] by (simp add: str_int_5)

text \<open>
  C9, as the claim states it, fails: for a key the store knows whose file is missing,
  the failure message is about the file path; it neither tells the caller to download
  the attachment first nor names the address.
\<close>

theorem resolve_missing_file_counterexample:
  "get_media demo_stale 100 5 = Some 0 \<and>
   \<not> path_exists (path (heap demo_stale 0)) demo_stale \<and>
   get_telegram_media ''100'' ''5'' demo_stale =
     Inl (ValueError ''Failed to serve media resource: Media file not found at /media/chat100_msg5.jpg'') \<and>
   \<not> download_first_condition ''100'' ''5'' (get_telegram_media ''100'' ''5'' demo_stale)"
proof -
  have g: "get_media demo_stale 100 5 = Some 0"
    by (simp add: get_media_def demo_stale_fields get_key_100_5)
  have r: "get_telegram_media ''100'' ''5'' demo_stale =
     Inl (ValueError ''Failed to serve media resource: Media file not found at /media/chat100_msg5.jpg'')"
    by (simp add: get_telegram_media_def serve_media_def py_int_100 py_int_5 g demo_stale_fields
          error_str_def)
  have "\<not> mentions ''Download it first''
           ''Failed to serve media resource: Media file not found at /media/chat100_msg5.jpg''"
    by code_simp
  then show ?thesis
    by (simp add: g r download_first_condition_def error_str_def path_exists_def demo_stale_fields)
qed

text \<open>
  C9, amended. For an address \<^verbatim>\<open>tgfile://{chat_id}/{message_id}\<close> whose two components
  read as integers, resolution never changes the store (it returns no state) and
  \<^item> with a key unknown to the store it fails with the message \<^verbatim>\<open>Failed to serve media
    resource: Media not found: {chat_id}/{message_id}. Download it first.\<close>, which meets
    the download-it-first condition;
  \<^item> with a known key whose file is missing it fails with the message \<^verbatim>\<open>Failed to serve
    media resource: Media file not found at {path}\<close>;
  \<^item> with a known key and an existing file it returns one resource: the address, the
    base64 encoding of the whole file content, and the record's MIME type.
\<close>

theorem resolve_contract:
  assumes "py_int cs = Some c" and "py_int ms = Some m"
  shows "(get_media s c m = None \<longrightarrow>
            get_telegram_media cs ms s =
              Inl (ValueError (''Failed to serve media resource: Media not found: '' @ cs @ ''/'' @ ms
                     @ ''. Download it first.'')) \<and>
            download_first_condition cs ms (get_telegram_media cs ms s)) \<and>
         (\<forall>r. get_media s c m = Some r \<and> files s (path (heap s r)) = None \<longrightarrow>
            get_telegram_media cs ms s =
              Inl (ValueError (''Failed to serve media resource: Media file not found at ''
                     @ path (heap s r)))) \<and>
         (\<forall>r content. get_media s c m = Some r \<and> files s (path (heap s r)) = Some content \<longrightarrow>
            get_telegram_media cs ms s =
              Inr [\<lparr>uri = ''tgfile://'' @ cs @ ''/'' @ ms, blob = b64encode content,
                    mimeType = mime_type (heap s r)\<rparr>])"
proof (intro conjI allI impI)
  assume n: "get_media s c m = None"
  show e: "get_telegram_media cs ms s =
      Inl (ValueError (''Failed to serve media resource: Media not found: '' @ cs @ ''/'' @ ms
             @ ''. Download it first.''))"
    using assms n by (simp add: get_telegram_media_def serve_media_def error_str_def)
  have 1: "mentions ''not found''
             (''Failed to serve media resource: Media '' @ ''not found'' @ ('': '' @ cs @ ''/'' @ ms
                @ ''. Download it first.''))"
    by (rule mentions_infix)
  have 2: "mentions ''Download it first''
             ((''Failed to serve media resource: Media not found: '' @ cs @ ''/'' @ ms @ ''. '')
                @ ''Download it first'' @ ''.'')"
    by (rule mentions_infix)
  have 3: "mentions (cs @ ''/'' @ ms)
             (''Failed to serve media resource: Media not found: '' @ (cs @ ''/'' @ ms)
                @ ''. Download it first.'')"
    by (rule mentions_infix)
  show "download_first_condition cs ms (get_telegram_media cs ms s)"
    using 1 2 3 by (simp add: e download_first_condition_def error_str_def)
next
  fix r
  assume "get_media s c m = Some r \<and> files s (path (heap s r)) = None"
  then show "get_telegram_media cs ms s =
      Inl (ValueError (''Failed to serve media resource: Media file not found at '' @ path (heap s r)))"
    using assms by (simp add: get_telegram_media_def serve_media_def error_str_def)
next
  fix r content
  assume "get_media s c m = Some r \<and> files s (path (heap s r)) = Some content"
  then show "get_telegram_media cs ms s =
      Inr [\<lparr>uri = ''tgfile://'' @ cs @ ''/'' @ ms, blob = b64encode content,
            mimeType = mime_type (heap s r)\<rparr>]"
    using assms by (simp add: get_telegram_media_def serve_media_def)
qed

theorem resolve_contract_witness:
  "py_int ''100'' = Some 100 \<and> py_int ''5'' = Some 5 \<and>
   get_media demo_store 100 5 = None \<and>
   get_telegram_media ''100'' ''5'' demo_store =
     Inl (ValueError ''Failed to serve media resource: Media not found: 100/5. Download it first.'') \<and>
   download_first_condition ''100'' ''5'' (get_telegram_media ''100'' ''5'' demo_store) \<and>
   get_media demo_stale 100 5 = Some 0 \<and> files demo_stale (path (heap demo_stale 0)) = None \<and>
   get_telegram_media ''100'' ''5'' demo_stale =
     Inl (ValueError ''Failed to serve media resource: Media file not found at /media/chat100_msg5.jpg'') \<and>
   get_media demo_saved 100 5 = Some 0 \<and>
   files demo_saved (path (heap demo_saved 0)) = Some [0xFF, 0xD8, 0xFF] \<and>
   get_telegram_media ''100'' ''5'' demo_saved =
     Inr [\<lparr>uri = ''tgfile://100/5'', blob = ''/9j/'', mimeType = ''image/jpeg''\<rparr>]"
proof -
  have a: "get_media demo_store 100 5 = None"
    by (simp add: get_media_def demo_store_fields)
  have b: "get_media demo_stale 100 5 = Some 0 \<and> files demo_stale (path (heap demo_stale 0)) = None"
    by (simp add: get_media_def demo_stale_fields get_key_100_5)
  have c: "get_media demo_saved 100 5 = Some 0 \<and>
           files demo_saved (path (heap demo_saved 0)) = Some [0xFF, 0xD8, 0xFF]"
    by (simp add: get_media_def demo_saved_fields get_key_100_5)
  note t = resolve_contract [OF py_int_100 py_int_5]
  from t [of demo_store] a
  have 1: "get_telegram_media ''100'' ''5'' demo_store =
             Inl (ValueError ''Failed to serve media resource: Media not found: 100/5. Download it first.'')
           \<and> download_first_condition ''100'' ''5'' (get_telegram_media ''100'' ''5'' demo_store)"
    by auto
  from t [of demo_stale] b
  have 2: "get_telegram_media ''100'' ''5'' demo_stale =
     Inl (ValueError ''Failed to serve media resource: Media file not found at /media/chat100_msg5.jpg'')"
    by (simp add: demo_stale_fields)
  from t [of demo_saved] c
  have 3: "get_telegram_media ''100'' ''5'' demo_saved =
     Inr [\<lparr>uri = ''tgfile://100/5'', blob = ''/9j/'', mimeType = ''image/jpeg''\<rparr>]"
    by (simp add: demo_saved_fields b64_char_def)
  from 1 2 3 a b c py_int_100 py_int_5 show ?thesis by blast
qed

section \<open>Listing\<close>

lemma same_but_ids_refl: "same_but_ids s s"
  by (simp add: same_but_ids_def)

lemma same_but_ids_trans:
  assumes "same_but_ids s s1" "same_but_ids s1 s2"
  shows "same_but_ids s s2"
proof -
  have a: "s2 = s\<lparr>heap := heap s2\<rparr>"
    using assms unfolding same_but_ids_def by (metis store.surjective store.update_convs(3))
  have b: "heap s2 r = (heap s r)\<lparr>chat_id := chat_id (heap s2 r), message_id := message_id (heap s2 r)\<rparr>" for r
  proof -
    have 1: "heap s1 r = (heap s r)\<lparr>chat_id := chat_id (heap s1 r), message_id := message_id (heap s1 r)\<rparr>"
      and 2: "heap s2 r = (heap s1 r)\<lparr>chat_id := chat_id (heap s2 r), message_id := message_id (heap s2 r)\<rparr>"
      using assms unfolding same_but_ids_def by blast+
    show ?thesis by (subst 2, subst 1) simp
  qed
  show ?thesis unfolding same_but_ids_def using a b by blast
qed

lemma same_but_ids_annotate: "same_but_ids s (annotate r c m s)"
  by (simp add: same_but_ids_def annotate_def heap_upd_def)

lemma same_but_ids_fields:
  assumes "same_but_ids s s'"
  shows "base_dir s' = base_dir s" "index s' = index s" "next_ref s' = next_ref s"
    "files s' = files s" "index_file s' = index_file s" "index_writes s' = index_writes s"
    "undeletable s' = undeletable s" "index_writable s' = index_writable s"
    "path (heap s' r) = path (heap s r)" "mime_type (heap s' r) = mime_type (heap s r)"
    "timestamp (heap s' r) = timestamp (heap s r)" "size_field (heap s' r) = size_field (heap s r)"
    "extension (heap s' r) = extension (heap s r)"
proof -
  have a: "s' = s\<lparr>heap := heap s'\<rparr>"
    and b: "heap s' r = (heap s r)\<lparr>chat_id := chat_id (heap s' r), message_id := message_id (heap s' r)\<rparr>"
    using assms unfolding same_but_ids_def by blast+
  show "base_dir s' = base_dir s" "index s' = index s" "next_ref s' = next_ref s"
    "files s' = files s" "index_file s' = index_file s" "index_writes s' = index_writes s"
    "undeletable s' = undeletable s" "index_writable s' = index_writable s"
    by (subst a, simp)+
  show "path (heap s' r) = path (heap s r)" "mime_type (heap s' r) = mime_type (heap s r)"
    "timestamp (heap s' r) = timestamp (heap s r)" "size_field (heap s' r) = size_field (heap s r)"
    "extension (heap s' r) = extension (heap s r)"
    by (subst b, simp)+
qed

lemma same_but_ids_valid:
  "same_but_ids s s' \<Longrightarrow> entry_valid s' e = entry_valid s e"
  by (simp add: entry_valid_def path_exists_def same_but_ids_fields)

lemma list_loop_stale:
  "\<not> entry_valid s (key, r) \<Longrightarrow>
   list_loop ((key, r) # items) v st s = list_loop items v (st @ [key]) s"
  by (simp add: entry_valid_def)

lemma list_loop_valid:
  "entry_valid s (key, r) \<Longrightarrow> parse_key key = Some (c, m) \<Longrightarrow>
   list_loop ((key, r) # items) v st s = list_loop items (v @ [r]) st (annotate r c m s)"
  by (auto simp: entry_valid_def parse_key_def annotate_def split: list.splits option.splits)

lemma list_loop_unparsed:
  "entry_valid s (key, r) \<Longrightarrow> parse_key key = None \<Longrightarrow>
   \<exists>e s1. list_loop ((key, r) # items) v st s = (Inl e, s1)"
  by (auto simp: entry_valid_def parse_key_def split: list.splits option.splits)

lemma heap_annotate:
  "heap (annotate r c m s) r' =
     (if r' = r then (heap s r)\<lparr>chat_id := Some c, message_id := Some m\<rparr> else heap s r')"
  by (simp add: annotate_def heap_upd_def)
text \<open>What the loop of \<open>list_media\<close> computes when every key reads as two integers: the
  references of the valid entries and the keys of the stale ones, in index order; the
  state differs only in the annotations, which are made exactly on the valid entries.\<close>

lemma list_loop_result:
  assumes "list_all (\<lambda>(k, r). parse_key k \<noteq> None) items"
  shows "\<exists>s'. list_loop items v st s =
               (Inr (v @ map snd (filter (entry_valid s) items),
                     st @ map fst (filter (\<lambda>e. \<not> entry_valid s e) items)), s') \<and>
             same_but_ids s s' \<and>
             (\<forall>r. r \<notin> snd ` set (filter (entry_valid s) items) \<longrightarrow> heap s' r = heap s r) \<and>
             (distinct (map snd items) \<longrightarrow>
                (\<forall>k r. (k, r) \<in> set items \<and> entry_valid s (k, r) \<longrightarrow>
                   (\<exists>c m. parse_key k = Some (c, m) \<and>
                      heap s' r = (heap s r)\<lparr>chat_id := Some c, message_id := Some m\<rparr>)))"
  using assms
proof (induction items arbitrary: v st s)
  case Nil
  show ?case by (simp add: same_but_ids_refl)
next
  case (Cons e items)
  obtain k r where e: "e = (k, r)" by (cases e)
  from Cons.prems e obtain c m where pk: "parse_key k = Some (c, m)" by auto
  from Cons.prems have rest: "list_all (\<lambda>(k, r). parse_key k \<noteq> None) items" by simp
  show ?case
  proof (cases "entry_valid s (k, r)")
    case False
    from Cons.IH [OF rest, of v "st @ [k]" s] obtain s' where
      l: "list_loop items v (st @ [k]) s =
            (Inr (v @ map snd (filter (entry_valid s) items),
                  (st @ [k]) @ map fst (filter (\<lambda>e. \<not> entry_valid s e) items)), s')" and
      sb: "same_but_ids s s'" and
      un: "\<forall>r. r \<notin> snd ` set (filter (entry_valid s) items) \<longrightarrow> heap s' r = heap s r" and
      an: "distinct (map snd items) \<longrightarrow>
             (\<forall>k r. (k, r) \<in> set items \<and> entry_valid s (k, r) \<longrightarrow>
                (\<exists>c m. parse_key k = Some (c, m) \<and>
                   heap s' r = (heap s r)\<lparr>chat_id := Some c, message_id := Some m\<rparr>))"
      by blast
    have 1: "list_loop (e # items) v st s =
               (Inr (v @ map snd (filter (entry_valid s) (e # items)),
                     st @ map fst (filter (\<lambda>e. \<not> entry_valid s e) (e # items))), s')"
    proof -
      have "list_loop (e # items) v st s = list_loop items v (st @ [k]) s"
        unfolding e by (rule list_loop_stale [OF False])
      then show ?thesis using False l by (simp add: e del: list_loop.simps)
    qed
    have 3: "\<forall>r. r \<notin> snd ` set (filter (entry_valid s) (e # items)) \<longrightarrow> heap s' r = heap s r"
      using False un by (simp add: e)
    have 4: "distinct (map snd (e # items)) \<longrightarrow>
             (\<forall>k r. (k, r) \<in> set (e # items) \<and> entry_valid s (k, r) \<longrightarrow>
                (\<exists>c m. parse_key k = Some (c, m) \<and>
                   heap s' r = (heap s r)\<lparr>chat_id := Some c, message_id := Some m\<rparr>))"
      using False an by (auto simp: e)
    from 1 sb 3 4 show ?thesis by blast
  next
    case True
    define s1 where "s1 = annotate r c m s"
    have s01: "same_but_ids s s1" by (simp add: s1_def same_but_ids_annotate)
    have ev: "entry_valid s1 = entry_valid s"
      using same_but_ids_valid [OF s01] by (rule ext)
    from Cons.IH [OF rest, of "v @ [r]" st s1] obtain s' where
      l: "list_loop items (v @ [r]) st s1 =
            (Inr ((v @ [r]) @ map snd (filter (entry_valid s) items),
                  st @ map fst (filter (\<lambda>e. \<not> entry_valid s e) items)), s')" and
      sb: "same_but_ids s1 s'" and
      un: "\<forall>r. r \<notin> snd ` set (filter (entry_valid s) items) \<longrightarrow> heap s' r = heap s1 r" and
      an: "distinct (map snd items) \<longrightarrow>
             (\<forall>k r. (k, r) \<in> set items \<and> entry_valid s (k, r) \<longrightarrow>
                (\<exists>c m. parse_key k = Some (c, m) \<and>
                   heap s' r = (heap s1 r)\<lparr>chat_id := Some c, message_id := Some m\<rparr>))"
      unfolding ev by blast
    have 1: "list_loop (e # items) v st s =
               (Inr (v @ map snd (filter (entry_valid s) (e # items)),
                     st @ map fst (filter (\<lambda>e. \<not> entry_valid s e) (e # items))), s')"
    proof -
      have "list_loop (e # items) v st s = list_loop items (v @ [r]) st s1"
        unfolding e s1_def by (rule list_loop_valid [OF True pk])
      then show ?thesis using True l by (simp add: e del: list_loop.simps)
    qed
    have 2: "same_but_ids s s'" using s01 sb by (rule same_but_ids_trans)
    have 3: "\<forall>r'. r' \<notin> snd ` set (filter (entry_valid s) (e # items)) \<longrightarrow> heap s' r' = heap s r'"
    proof (intro allI impI)
      fix r' assume a: "r' \<notin> snd ` set (filter (entry_valid s) (e # items))"
      then have "r' \<noteq> r" and "r' \<notin> snd ` set (filter (entry_valid s) items)"
        using True by (auto simp: e)
      then show "heap s' r' = heap s r'" using un by (simp add: s1_def heap_annotate)
    qed
    have 4: "distinct (map snd (e # items)) \<longrightarrow>
             (\<forall>k' r'. (k', r') \<in> set (e # items) \<and> entry_valid s (k', r') \<longrightarrow>
                (\<exists>c m. parse_key k' = Some (c, m) \<and>
                   heap s' r' = (heap s r')\<lparr>chat_id := Some c, message_id := Some m\<rparr>))"
    proof (intro allI impI)
      fix k' r'
      assume d: "distinct (map snd (e # items))"
        and a: "(k', r') \<in> set (e # items) \<and> entry_valid s (k', r')"
      from d have rn: "r \<notin> snd ` set items" and di: "distinct (map snd items)" by (auto simp: e)
      show "\<exists>c m. parse_key k' = Some (c, m) \<and>
                   heap s' r' = (heap s r')\<lparr>chat_id := Some c, message_id := Some m\<rparr>"
      proof (cases "(k', r') = (k, r)")
        case True
        have "r \<notin> snd ` set (filter (entry_valid s) items)" using rn by auto
        then have "heap s' r = heap s1 r" using un by blast
        then show ?thesis using True pk by (simp add: s1_def heap_annotate)
      next
        case False
        with a have mem: "(k', r') \<in> set items" by (auto simp: e)
        then have "r' \<noteq> r" using rn by force
        moreover from an di mem a obtain c' m' where
          "parse_key k' = Some (c', m')"
          "heap s' r' = (heap s1 r')\<lparr>chat_id := Some c', message_id := Some m'\<rparr>"
          by blast
        ultimately show ?thesis by (simp add: s1_def heap_annotate)
      qed
    qed
    from 1 2 3 4 show ?thesis by blast
  qed
qed

lemma fold_delete_filter:
  "fold AList.delete ks al = filter (\<lambda>e. fst e \<notin> set ks) al"
proof (induction ks arbitrary: al)
  case Nil
  show ?case by simp
next
  case (Cons k ks)
  have "AList.delete k al = filter (\<lambda>e. fst e \<noteq> k) al"
    by (induction al) auto
  then show ?case by (simp add: Cons conj_commute) 
qed
lemma list_loop_frame:
  "list_loop items v st s = (res, s') \<Longrightarrow> same_but_ids s s'"
proof (induction items arbitrary: v st s)
  case Nil
  then show ?case by (simp add: same_but_ids_refl)
next
  case (Cons e items)
  obtain k r where e: "e = (k, r)" by (cases e)
  show ?case
  proof (cases "entry_valid s (k, r)")
    case False
    have "list_loop (e # items) v st s = list_loop items v (st @ [k]) s"
      unfolding e by (rule list_loop_stale [OF False])
    with Cons.prems Cons.IH show ?thesis by simp
  next
    case True
    show ?thesis
    proof (cases "parse_key k")
      case (Some cm)
      obtain c m where cm: "cm = (c, m)" by (cases cm)
      have "list_loop (e # items) v st s = list_loop items (v @ [r]) st (annotate r c m s)"
        unfolding e using True Some cm by (simp add: list_loop_valid del: list_loop.simps)
      with Cons.prems have "list_loop items (v @ [r]) st (annotate r c m s) = (res, s')" by simp
      then have "same_but_ids (annotate r c m s) s'" by (rule Cons.IH)
      with same_but_ids_annotate show ?thesis by (rule same_but_ids_trans)
    next
      case None
      have h: "same_but_ids s (heap_upd r (\<lambda>i. i\<lparr>chat_id := Some c\<rparr>) s)" for c
        by (simp add: same_but_ids_def heap_upd_def)
      from Cons.prems True None show ?thesis
        unfolding e
        by (auto simp: entry_valid_def parse_key_def same_but_ids_refl h
              split: list.splits option.splits)
    qed
  qed
qed

lemma list_media_frame:
  assumes "list_media s = (res, s')"
  shows "base_dir s' = base_dir s" "files s' = files s" "undeletable s' = undeletable s"
    "index_writable s' = index_writable s" "next_ref s' = next_ref s"
    "path (heap s' r) = path (heap s r)" "size_field (heap s' r) = size_field (heap s r)"
    "mime_type (heap s' r) = mime_type (heap s r)" "timestamp (heap s' r) = timestamp (heap s r)"
    "extension (heap s' r) = extension (heap s r)"
proof -
  obtain res1 s1 where l: "list_loop (index s) [] [] s = (res1, s1)"
    by (cases "list_loop (index s) [] [] s")
  note f = same_but_ids_fields [OF list_loop_frame [OF l]]
  have "s' = s1 \<or> (\<exists>i j n. s' = s1\<lparr>index := i, index_file := j, index_writes := n\<rparr>) \<or>
        (\<exists>i. s' = s1\<lparr>index := i\<rparr>)"
    using assms l
    by (auto simp: list_media_def save_index_def split: sum.splits prod.splits if_splits)
  then have "base_dir s' = base_dir s1 \<and> files s' = files s1 \<and> undeletable s' = undeletable s1 \<and>
        index_writable s' = index_writable s1 \<and> next_ref s' = next_ref s1 \<and> heap s' = heap s1"
    by auto
  then show "base_dir s' = base_dir s" "files s' = files s" "undeletable s' = undeletable s"
    "index_writable s' = index_writable s" "next_ref s' = next_ref s"
    "path (heap s' r) = path (heap s r)" "size_field (heap s' r) = size_field (heap s r)"
    "mime_type (heap s' r) = mime_type (heap s r)" "timestamp (heap s' r) = timestamp (heap s r)"
    "extension (heap s' r) = extension (heap s r)"
    by (simp_all add: f)
qed

lemma stale_keys_filter:
  assumes "distinct (map fst al)"
  shows "filter (\<lambda>e. fst e \<notin> set (map fst (filter (\<lambda>e. \<not> P e) al))) al = filter P al"
proof (rule filter_cong [OF refl])
  fix e assume e: "e \<in> set al"
  show "(fst e \<notin> set (map fst (filter (\<lambda>e. \<not> P e) al))) = P e"
  proof
    assume "fst e \<notin> set (map fst (filter (\<lambda>e. \<not> P e) al))"
    then show "P e" using e by force
  next
    assume p: "P e"
    show "fst e \<notin> set (map fst (filter (\<lambda>e. \<not> P e) al))"
    proof
      assume "fst e \<in> set (map fst (filter (\<lambda>e. \<not> P e) al))"
      then obtain e' where e': "e' \<in> set al" "\<not> P e'" "fst e' = fst e" by auto
      with assms e have "e' = e" by (metis eq_key_imp_eq_value prod.collapse)
      with p e' show False by simp
    qed
  qed
qed

text \<open>The result of \<open>list_media\<close> when every key reads as two integers and keys are not
  repeated. \<open>s1\<close> is the state after the loop.\<close>

lemma list_media_result:
  assumes keys: "list_all (\<lambda>(k, r). parse_key k \<noteq> None) (index s)"
      and dk: "distinct (map fst (index s))"
      and w: "index_writable s \<or> list_all (entry_valid s) (index s)"
  shows "\<exists>s1. same_but_ids s s1 \<and>
           (\<forall>r. r \<notin> snd ` set (filter (entry_valid s) (index s)) \<longrightarrow> heap s1 r = heap s r) \<and>
           (distinct (map snd (index s)) \<longrightarrow>
              (\<forall>k r. (k, r) \<in> set (index s) \<and> entry_valid s (k, r) \<longrightarrow>
                 (\<exists>c m. parse_key k = Some (c, m) \<and>
                    heap s1 r = (heap s r)\<lparr>chat_id := Some c, message_id := Some m\<rparr>))) \<and>
           list_media s =
             (Inr (map snd (filter (entry_valid s) (index s))),
              if list_all (entry_valid s) (index s) then s1
              else s1\<lparr>index := filter (entry_valid s) (index s),
                      index_file := IndexJson (map (\<lambda>(key, r). (key, heap s1 r))
                                                  (filter (entry_valid s) (index s))),
                      index_writes := Suc (index_writes s)\<rparr>)"
proof -
  from list_loop_result [OF keys, of "[]" "[]" s] obtain s1 where
    l: "list_loop (index s) [] [] s =
          (Inr (map snd (filter (entry_valid s) (index s)),
                map fst (filter (\<lambda>e. \<not> entry_valid s e) (index s))), s1)" and
    sb: "same_but_ids s s1" and
    un: "\<forall>r. r \<notin> snd ` set (filter (entry_valid s) (index s)) \<longrightarrow> heap s1 r = heap s r" and
    an: "distinct (map snd (index s)) \<longrightarrow>
              (\<forall>k r. (k, r) \<in> set (index s) \<and> entry_valid s (k, r) \<longrightarrow>
                 (\<exists>c m. parse_key k = Some (c, m) \<and>
                    heap s1 r = (heap s r)\<lparr>chat_id := Some c, message_id := Some m\<rparr>))"
    by auto
  note f = same_but_ids_fields [OF sb]
  have st: "(map fst (filter (\<lambda>e. \<not> entry_valid s e) (index s)) = []) = list_all (entry_valid s) (index s)"
    by (auto simp: filter_empty_conv list_all_iff)
  have lm: "list_media s =
             (Inr (map snd (filter (entry_valid s) (index s))),
              if list_all (entry_valid s) (index s) then s1
              else s1\<lparr>index := filter (entry_valid s) (index s),
                      index_file := IndexJson (map (\<lambda>(key, r). (key, heap s1 r))
                                                  (filter (entry_valid s) (index s))),
                      index_writes := Suc (index_writes s)\<rparr>)"
  proof (cases "list_all (entry_valid s) (index s)")
    case True
    then show ?thesis using st by (simp add: list_media_def l)
  next
    case False
    with w have iw: "index_writable s" by blast
    have fd: "fold AList.delete (map fst (filter (\<lambda>e. \<not> entry_valid s e) (index s))) (index s)
                = filter (entry_valid s) (index s)"
      by (simp only: fold_delete_filter stale_keys_filter [OF dk])
    show ?thesis
      using False st iw
      by (simp add: list_media_def l fd save_index_def f index_snapshot_def)
  qed
  from sb un an lm show ?thesis by blast
qed

subsection \<open>Consequences of the invariant\<close>

lemma entry_ok_parse: "entry_ok base key info \<Longrightarrow> parse_key key \<noteq> None"
  by (auto simp: entry_ok_def split: option.splits)

lemma store_inv_entry:
  "store_inv s \<Longrightarrow> (k, r) \<in> set (index s) \<Longrightarrow> r < next_ref s \<and> entry_ok (base_dir s) k (heap s r)"
  unfolding store_inv_def list_all_iff by blast

lemma store_inv_keys: "store_inv s \<Longrightarrow> list_all (\<lambda>(k, r). parse_key k \<noteq> None) (index s)"
  unfolding list_all_iff using store_inv_entry entry_ok_parse by blast

lemma store_inv_distinct:
  "store_inv s \<Longrightarrow> distinct (map fst (index s))" "store_inv s \<Longrightarrow> distinct (map snd (index s))"
  by (simp_all add: store_inv_def)

lemma parse_key_100_5: "parse_key ''100|5'' = Some (100, 5)"
  using parse_key_get_key [of 100 5] by (simp add: get_key_100_5)

lemma demo_entry_ok:
  "entry_ok ''/media'' ''100|5''
     \<lparr>path = ''/media/chat100_msg5.jpg'', mime_type = ''image/jpeg'', timestamp = demo_now,
      size_field = 3, extension = ''.jpg'', chat_id = a, message_id = b\<rparr>"
  by (simp add: entry_ok_def parse_key_100_5 get_key_100_5 str_int_100 str_int_5 path_join_def)

lemma demo_saved_inv: "store_inv demo_saved"
  by (simp add: store_inv_def demo_saved_fields demo_saved_index_file index_file_ok_def demo_entry_ok)

lemma demo_stale_inv: "store_inv demo_stale"
  using demo_saved_inv by (simp add: store_inv_def demo_stale_def delete_out_of_band_def)

text \<open>
  C3, as the claim states it, fails: once \<open>list_media\<close> has run after the out-of-band
  deletion, the entry is gone from the index, so \<open>get_media\<close> for the key returns nothing
  rather than the old metadata.
\<close>

theorem stale_get_after_list_counterexample:
  "get_media demo_stale 100 5 = Some 0 \<and>
   \<not> path_exists (path (heap demo_stale 0)) demo_stale \<and>
   fst (list_media demo_stale) = Inr [] \<and>
   get_media (snd (list_media demo_stale)) 100 5 = None"
proof -
  have v: "\<not> entry_valid demo_stale (''100|5'', 0)"
    by (simp add: entry_valid_def path_exists_def demo_stale_fields)
  from list_media_result [OF store_inv_keys [OF demo_stale_inv] store_inv_distinct(1) [OF demo_stale_inv]]
  obtain s1 where
    "list_media demo_stale =
       (Inr (map snd (filter (entry_valid demo_stale) (index demo_stale))),
        if list_all (entry_valid demo_stale) (index demo_stale) then s1
        else s1\<lparr>index := filter (entry_valid demo_stale) (index demo_stale),
                index_file := IndexJson (map (\<lambda>(key, r). (key, heap s1 r))
                                (filter (entry_valid demo_stale) (index demo_stale))),
                index_writes := Suc (index_writes demo_stale)\<rparr>)"
    using demo_stale_fields(4) by blast
  then have "fst (list_media demo_stale) = Inr [] \<and> index (snd (list_media demo_stale)) = []"
    using v by (simp add: demo_stale_fields)
  then show ?thesis
    by (simp add: get_media_def demo_stale_fields get_key_100_5 path_exists_def)
qed

text \<open>
  C3, amended. Let a record's file have been deleted out-of-band, in a state that
  satisfies the store invariant and whose index file can be written. Until the next
  listing \<open>get_media\<close> still returns the record while \<open>get_media_path\<close> reports absence.
  The next \<open>list_media\<close> returns the references of exactly the entries whose file exists
  (so not that record), leaves exactly those entries in the index, writes the index file
  once for the whole pass, and the file then holds the pruned index. After that listing
  \<open>get_media\<close> and \<open>get_media_path\<close> both report absence for the key.
\<close>

theorem stale_pruning:
  assumes "store_inv s" and "index_writable s"
      and "map_of (index s) (get_key c m) = Some r"
      and "\<not> path_exists (path (heap s r)) s"
  shows "get_media s c m = Some r \<and> get_media_path s c m = None \<and>
         (\<exists>s'. list_media s = (Inr (map snd (filter (entry_valid s) (index s))), s') \<and>
               r \<notin> set (map snd (filter (entry_valid s) (index s))) \<and>
               index s' = filter (entry_valid s) (index s) \<and>
               list_all (entry_valid s') (index s') \<and>
               index_writes s' = Suc (index_writes s) \<and>
               index_file s' = IndexJson (index_snapshot s') \<and>
               files s' = files s \<and>
               get_media s' c m = None \<and> get_media_path s' c m = None)"
proof -
  have g: "get_media s c m = Some r" using assms(3) by (simp add: get_media_def)
  have gp: "get_media_path s c m = None" using assms(4) by (simp add: get_media_path_def g)
  have mem: "(get_key c m, r) \<in> set (index s)" using assms(3) by (rule map_of_SomeD)
  have nv: "\<not> entry_valid s (get_key c m, r)" using assms(4) by (simp add: entry_valid_def)
  have some_stale: "\<not> list_all (entry_valid s) (index s)"
    using mem nv by (auto simp: list_all_iff)
  from list_media_result [OF store_inv_keys [OF assms(1)] store_inv_distinct(1) [OF assms(1)]] assms(2)
  obtain s1 where sb: "same_but_ids s s1" and
    lm: "list_media s =
       (Inr (map snd (filter (entry_valid s) (index s))),
        if list_all (entry_valid s) (index s) then s1
        else s1\<lparr>index := filter (entry_valid s) (index s),
                index_file := IndexJson (map (\<lambda>(key, r). (key, heap s1 r))
                                (filter (entry_valid s) (index s))),
                index_writes := Suc (index_writes s)\<rparr>)"
    by blast
  define s' where
    "s' = s1\<lparr>index := filter (entry_valid s) (index s),
             index_file := IndexJson (map (\<lambda>(key, r). (key, heap s1 r))
                                (filter (entry_valid s) (index s))),
             index_writes := Suc (index_writes s)\<rparr>"
  note f = same_but_ids_fields [OF sb]
  have l: "list_media s = (Inr (map snd (filter (entry_valid s) (index s))), s')"
    using lm some_stale by (simp add: s'_def)
  have nr: "r \<notin> set (map snd (filter (entry_valid s) (index s)))"
    using assms(4) by (auto simp: entry_valid_def)
  have i: "index s' = filter (entry_valid s) (index s)" by (simp add: s'_def)
  have ev: "entry_valid s' e = entry_valid s e" for e
    by (simp add: entry_valid_def path_exists_def s'_def f)
  have av: "list_all (entry_valid s') (index s')"
    by (simp add: i list_all_iff ev)
  have iw: "index_writes s' = Suc (index_writes s)" by (simp add: s'_def)
  have ifl: "index_file s' = IndexJson (index_snapshot s')"
    by (simp add: s'_def index_snapshot_def)
  have fl: "files s' = files s" by (simp add: s'_def f)
  have "map_of (filter (entry_valid s) (index s)) (get_key c m) = None"
  proof (rule ccontr)
    assume "map_of (filter (entry_valid s) (index s)) (get_key c m) \<noteq> None"
    then obtain r' where "map_of (filter (entry_valid s) (index s)) (get_key c m) = Some r'" by blast
    then have m': "(get_key c m, r') \<in> set (index s)" and v': "entry_valid s (get_key c m, r')"
      by (auto dest: map_of_SomeD)
    from m' mem store_inv_distinct(1) [OF assms(1)] have "r' = r"
      by (metis eq_key_imp_eq_value)
    with v' nv show False by simp
  qed
  then have g': "get_media s' c m = None" by (simp add: get_media_def i)
  then have gp': "get_media_path s' c m = None" by (simp add: get_media_path_def)
  from g gp l nr i av iw ifl fl g' gp' show ?thesis by blast
qed

theorem stale_pruning_witness:
  "store_inv demo_stale \<and> index_writable demo_stale \<and>
   map_of (index demo_stale) (get_key 100 5) = Some 0 \<and>
   \<not> path_exists (path (heap demo_stale 0)) demo_stale \<and>
   get_media demo_stale 100 5 = Some 0 \<and> get_media_path demo_stale 100 5 = None \<and>
   (\<exists>s'. list_media demo_stale = (Inr [], s') \<and> index s' = [] \<and>
         index_writes s' = 2 \<and> index_file s' = IndexJson [] \<and>
         get_media s' 100 5 = None \<and> get_media_path s' 100 5 = None)"
proof -
  have h3: "map_of (index demo_stale) (get_key 100 5) = Some 0"
    by (simp add: demo_stale_fields get_key_100_5)
  have h4: "\<not> path_exists (path (heap demo_stale 0)) demo_stale"
    by (simp add: path_exists_def demo_stale_fields)
  have v: "filter (entry_valid demo_stale) (index demo_stale) = []"
    by (simp add: entry_valid_def path_exists_def demo_stale_fields)
  have w: "index_writes demo_stale = 1"
    by (simp add: demo_stale_def delete_out_of_band_def demo_saved_fields)
  from stale_pruning [OF demo_stale_inv demo_stale_fields(4) h3 h4]
  have "get_media demo_stale 100 5 = Some 0 \<and> get_media_path demo_stale 100 5 = None \<and>
        (\<exists>s'. list_media demo_stale = (Inr [], s') \<and> index s' = [] \<and>
         index_writes s' = 2 \<and> index_file s' = IndexJson [] \<and>
         get_media s' 100 5 = None \<and> get_media_path s' 100 5 = None)"
    unfolding v w by (auto simp: index_snapshot_def)
  with demo_stale_inv demo_stale_fields(4) h3 h4 show ?thesis by blast
qed

section \<open>The store invariant\<close>

lemma entry_ok_cong:
  "path i' = path i \<Longrightarrow> extension i' = extension i \<Longrightarrow> entry_ok base key i' = entry_ok base key i"
  by (simp add: entry_ok_def split: option.splits)

lemma store_inv_eqI:
  assumes "store_inv s"
      and "base_dir s' = base_dir s" "index s' = index s" "next_ref s' = next_ref s"
          "index_file s' = index_file s"
      and "\<And>r. path (heap s' r) = path (heap s r)" "\<And>r. extension (heap s' r) = extension (heap s r)"
  shows "store_inv s'"
proof -
  have "entry_ok (base_dir s) key (heap s' r) = entry_ok (base_dir s) key (heap s r)" for key r
    by (rule entry_ok_cong) (rule assms)+
  then show ?thesis using assms(1) by (simp add: store_inv_def assms(2-5))
qed

lemma store_inv_same_but_ids: "store_inv s \<Longrightarrow> same_but_ids s s' \<Longrightarrow> store_inv s'"
  by (erule store_inv_eqI) (simp_all add: same_but_ids_fields)

lemma store_inv_filter:
  assumes "store_inv s"
  shows "store_inv (s\<lparr>index := filter P (index s)\<rparr>)"
proof -
  have "distinct (map fst (filter P (index s)))" "distinct (map snd (filter P (index s)))"
    using assms by (simp_all add: store_inv_def distinct_map_filter)
  then show ?thesis using assms by (simp add: store_inv_def list_all_iff)
qed

lemma delete_filter: "AList.delete k al = filter (\<lambda>e. fst e \<noteq> k) al"
  by (induction al) auto

lemma store_inv_save_index:
  assumes "store_inv s"
  shows "store_inv (snd (save_index s))"
proof (cases "index_writable s")
  case False
  then show ?thesis using assms by (simp add: save_index_def)
next
  case True
  have k: "map fst (index_snapshot s) = map fst (index s)"
    by (simp add: index_snapshot_def) (induction "index s", auto)
  have "list_all (\<lambda>(key, info). entry_ok (base_dir s) key info) (index_snapshot s)"
    using assms by (auto simp: index_snapshot_def store_inv_def list_all_iff)
  then have "index_file_ok (base_dir s) (IndexJson (index_snapshot s))"
    using assms by (simp add: index_file_ok_def k store_inv_def)
  then show ?thesis using True assms by (simp add: save_index_def store_inv_def)
qed

lemma update_cases:
  "(k', v') \<in> set (AList.update k v al) \<Longrightarrow> (k', v') = (k, v) \<or> (k', v') \<in> set al"
  by (induction al) (auto split: if_splits)

lemma distinct_snd_update:
  "distinct (map snd al) \<Longrightarrow> v \<notin> snd ` set al \<Longrightarrow> distinct (map snd (AList.update k v al))"
proof (induction al)
  case Nil
  show ?case by simp
next
  case (Cons e al)
  have "snd ` set (AList.update k v al) \<subseteq> insert v (snd ` set al)"
    using update_cases [of _ _ k v al] by force
  with Cons show ?case by (cases e) auto
qed

lemma store_inv_index_set:
  assumes "store_inv s" and "entry_ok (base_dir s) key info"
  shows "store_inv (index_set key info s)"
proof -
  have fresh: "next_ref s \<notin> snd ` set (index s)"
    using store_inv_entry [OF assms(1)] by force
  have 1: "distinct (map fst (AList.update key (next_ref s) (index s)))"
    using assms(1) by (simp add: store_inv_def distinct_update)
  have 2: "distinct (map snd (AList.update key (next_ref s) (index s)))"
    using assms(1) fresh by (simp add: store_inv_def distinct_snd_update)
  have 3: "list_all (\<lambda>(k, r). r < Suc (next_ref s) \<and>
             entry_ok (base_dir s) k (((heap s)(next_ref s := info)) r))
             (AList.update key (next_ref s) (index s))"
    unfolding list_all_iff
  proof (intro ballI)
    fix e assume e: "e \<in> set (AList.update key (next_ref s) (index s))"
    obtain k r where kr: "e = (k, r)" by (cases e)
    from e kr update_cases [of k r key "next_ref s" "index s"]
    consider "(k, r) = (key, next_ref s)" | "(k, r) \<in> set (index s)" by blast
    then show "case e of (k, r) \<Rightarrow> r < Suc (next_ref s) \<and>
             entry_ok (base_dir s) k (((heap s)(next_ref s := info)) r)"
    proof cases
      case 1
      then show ?thesis using assms(2) by (simp add: kr)
    next
      case 2
      from store_inv_entry [OF assms(1) 2] show ?thesis by (simp add: kr)
    qed
  qed
  from 1 2 3 assms(1) show ?thesis by (simp add: store_inv_def index_set_def)
qed

lemma suffix_dot: "path_suffix p = [] \<or> take 1 (path_suffix p) = ''.''"
  by (simp add: path_suffix_def Let_def)

lemma resolve_extension_dot: "take 1 (resolve_extension p mime) = ''.''"
proof (cases "path_suffix p = []")
  case False
  then show ?thesis using suffix_dot [of p] by (simp add: resolve_extension_def)
next
  case True
  have "take 1 (case map_of ext_map mime of Some e \<Rightarrow> e | None \<Rightarrow> ''.bin'') = ''.''"
    by (auto simp: ext_map_def split: option.splits if_splits)
  with True show ?thesis by (simp add: resolve_extension_def)
qed

lemma store_inv_files: "store_inv (s\<lparr>files := fs\<rparr>) = store_inv s"
  by (simp add: store_inv_def)

lemma store_inv_save_media:
  assumes "store_inv s"
  shows "store_inv (snd (save_media g now c m src mime s))"
proof -
  define mime' where "mime' = resolve_mime g src mime"
  define ext where "ext = resolve_extension src mime'"
  define info where
    "info = (\<lambda>n. \<lparr>path = get_file_path s c m ext, mime_type = mime', timestamp = now,
              size_field = n, extension = ext, chat_id = None, message_id = None\<rparr>)"
  have ok: "entry_ok (base_dir s) (get_key c m) (info n)" for n
    using resolve_extension_dot [of src mime']
    by (simp add: entry_ok_def parse_key_get_key info_def get_file_path_def ext_def)
  have a: "store_inv (snd (save_index (index_set (get_key c m) (info n) (s\<lparr>files := fs\<rparr>))))" for n fs
    by (rule store_inv_save_index, rule store_inv_index_set)
       (simp_all add: store_inv_files assms ok)
  show ?thesis
    using assms a
    by (auto simp: save_media_def Let_def copy2_def stat_size_def store_inv_files case_prod_beta
          mime'_def [symmetric] ext_def [symmetric] info_def
        split: option.splits sum.splits if_splits)
qed

lemma store_inv_list_media:
  assumes "store_inv s"
  shows "store_inv (snd (list_media s))"
proof -
  obtain res1 s1 where l: "list_loop (index s) [] [] s = (res1, s1)"
    by (cases "list_loop (index s) [] [] s")
  have i1: "store_inv s1"
    using assms list_loop_frame [OF l] by (rule store_inv_same_but_ids)
  have i2: "store_inv (snd (save_index (s1\<lparr>index := fold AList.delete ks (index s1)\<rparr>)))" for ks
    unfolding fold_delete_filter by (rule store_inv_save_index, rule store_inv_filter, rule i1)
  show ?thesis
    using i1 i2
    by (auto simp: list_media_def l case_prod_beta split: sum.splits if_splits)
qed

lemma store_inv_get_storage_stats:
  assumes "store_inv s"
  shows "store_inv (snd (get_storage_stats s))"
  using store_inv_list_media [OF assms]
  by (auto simp: get_storage_stats_def Let_def case_prod_beta split: sum.splits)

lemma store_inv_os_remove: "store_inv (snd (os_remove p s)) = store_inv s"
  by (simp add: os_remove_def store_inv_def)

lemma store_inv_delete_media:
  assumes "store_inv s"
  shows "store_inv (snd (delete_media s c m))"
proof -
  have "store_inv (snd (save_index (s1\<lparr>index := AList.delete k (index s1)\<rparr>)))"
    if "store_inv s1" for s1 k
    unfolding delete_filter by (rule store_inv_save_index, rule store_inv_filter, rule that)
  then show ?thesis
    using assms
    by (auto simp: delete_media_def Let_def case_prod_beta store_inv_os_remove
          split: option.splits sum.splits)
qed

lemma clear_loop_frame:
  "clear_loop rs n s = (n', s') \<Longrightarrow> s' = s\<lparr>files := files s'\<rparr>"
proof (induction rs arbitrary: n s)
  case Nil
  then show ?case by simp
next
  case (Cons r rs)
  have os: "snd (os_remove p s) = s\<lparr>files := files (snd (os_remove p s))\<rparr>" for p
    by (simp add: os_remove_def)
  from Cons.prems consider
      "clear_loop rs n s = (n', s')"
    | p where "clear_loop rs n (snd (os_remove p s)) = (n', s')"
    | p where "clear_loop rs (n + 1) (snd (os_remove p s)) = (n', s')"
    by (auto simp: Let_def case_prod_beta split: if_splits sum.splits)
  then show ?case
  proof cases
    case 1
    then show ?thesis by (rule Cons.IH)
  next
    case 2
    from Cons.IH [OF 2] os [of p] show ?thesis
      by (metis store.surjective store.update_convs(5))
  next
    case 3
    from Cons.IH [OF 3] os [of p] show ?thesis
      by (metis store.surjective store.update_convs(5))
  qed
qed

lemma store_inv_clear_all_media:
  assumes "store_inv s"
  shows "store_inv (snd (clear_all_media s))"
proof -
  obtain n s1 where l: "clear_loop (map snd (index s)) 0 s = (n, s1)"
    by (cases "clear_loop (map snd (index s)) 0 s")
  from clear_loop_frame [OF l] have "s1 = s\<lparr>files := files s1\<rparr>" .
  then have "store_inv s1" using assms by (metis store_inv_files)
  then have "store_inv (s1\<lparr>index := filter (\<lambda>_. False) (index s1)\<rparr>)" by (rule store_inv_filter)
  then have "store_inv (snd (save_index (s1\<lparr>index := []\<rparr>)))"
    by (simp add: store_inv_save_index)
  then show ?thesis
    by (auto simp: clear_all_media_def l case_prod_beta split: sum.splits)
qed

lemma store_inv_load_entries:
  "store_inv s \<Longrightarrow> list_all (\<lambda>(key, info). entry_ok (base_dir s) key info) kvs \<Longrightarrow>
   store_inv (load_entries kvs s)"
proof (induction kvs arbitrary: s)
  case Nil
  then show ?case by simp
next
  case (Cons e kvs)
  obtain k i where e: "e = (k, i)" by (cases e)
  have "store_inv (index_set k i s)"
    using Cons.prems by (intro store_inv_index_set) (simp_all add: e)
  moreover have "base_dir (index_set k i s) = base_dir s" by (simp add: index_set_def)
  ultimately show ?case using Cons.prems by (simp add: e Cons.IH)
qed

lemma store_inv_media_storage:
  assumes "index_file_ok base idx"
  shows "store_inv (media_storage base fs idx undel writable)"
proof -
  define s0 where
    "s0 = \<lparr>base_dir = base, index = [], heap = (\<lambda>_. blank_info), next_ref = 0,
           files = fs, index_file = idx, index_writes = 0,
           undeletable = undel, index_writable = writable\<rparr>"
  have i0: "store_inv s0" using assms by (simp add: s0_def store_inv_def)
  have "store_inv (load_index s0)"
  proof (cases idx)
    case (IndexJson kvs)
    have "store_inv (load_entries kvs (s0\<lparr>index := []\<rparr>))"
      using i0 assms by (intro store_inv_load_entries) (simp_all add: s0_def IndexJson index_file_ok_def)
    then show ?thesis by (simp add: load_index_def s0_def IndexJson)
  qed (use i0 in \<open>simp_all add: load_index_def s0_def\<close>)
  then show ?thesis by (simp add: media_storage_def s0_def)
qed

lemma store_inv_restart: "store_inv s \<Longrightarrow> store_inv (restart s)"
  unfolding restart_def by (rule store_inv_media_storage) (simp add: store_inv_def)

text \<open>Every reachable state satisfies the invariant.\<close>

lemma reachable_store_inv: "reachable s \<Longrightarrow> store_inv s"
proof (induction rule: reachable.induct)
  case (construct base idx fs undel writable)
  then show ?case by (rule store_inv_media_storage)
next
  case (environment s fs undel writable)
  then show ?case by (simp add: store_inv_def)
qed (simp_all add: store_inv_save_media store_inv_list_media store_inv_delete_media
       store_inv_clear_all_media store_inv_get_storage_stats store_inv_restart)

section \<open>Key uniqueness and overwrite\<close>

lemma one_entry_per_key:
  "distinct (map fst al) \<Longrightarrow> map_of al k = Some v \<Longrightarrow> length (filter (\<lambda>e. fst e = k) al) = 1"
proof (induction al)
  case Nil
  then show ?case by simp
next
  case (Cons e al)
  show ?case
  proof (cases "fst e = k")
    case True
    with Cons.prems have "k \<notin> fst ` set al" by auto
    then have "filter (\<lambda>e. fst e = k) al = []" by (auto simp: filter_empty_conv)
    with True show ?thesis by simp
  next
    case False
    with Cons show ?thesis by (cases e) auto
  qed
qed

lemma path_join_inj: "path_join b f = path_join b f' \<Longrightarrow> f = f'"
  by (auto simp: path_join_def split: if_splits)

lemma get_file_path_ext_inj:
  "base_dir s' = base_dir s \<Longrightarrow> get_file_path s c m e = get_file_path s' c m e' \<Longrightarrow> e = e'"
  by (auto simp: get_file_path_def dest: path_join_inj)

lemma demo_store_reachable: "reachable demo_store"
  unfolding demo_store_def by (rule reachable.construct) (simp add: index_file_ok_def)

lemma suffix_png: "path_suffix ''/tmp/photo.png'' = ''.png''"
  by code_simp

text \<open>
  C2. Key uniqueness and overwrite. In every reachable state no key occurs twice in the
  index, and distinct pairs \<open>(chat_id, message_id)\<close> have distinct keys. After two
  saves under the same key that both return, the index has exactly one entry for the
  key; its metadata (path, MIME type, size, extension, timestamp) is that of the second
  save, and the index file holds it. When the two saves resolve different extensions,
  the two paths differ and the file the first save wrote is still there with its
  content: only the index entry was replaced.
\<close>

theorem key_uniqueness_and_overwrite:
  "(reachable s \<longrightarrow> distinct (map fst (index s))) \<and>
   (get_key c' m' = get_key c m \<longleftrightarrow> c' = c \<and> m' = m) \<and>
   (reachable s \<and>
    save_media g1 now1 c m src1 mime1 s = (Inr p1, s1) \<and>
    save_media g2 now2 c m src2 mime2 s1 = (Inr p2, s2) \<longrightarrow>
      length (filter (\<lambda>e. fst e = get_key c m) (index s2)) = 1 \<and>
      (\<exists>r content2.
          get_media s2 c m = Some r \<and> files s1 src2 = Some content2 \<and>
          heap s2 r =
            \<lparr>path = p2, mime_type = resolve_mime g2 src2 mime2, timestamp = now2,
             size_field = length content2,
             extension = resolve_extension src2 (resolve_mime g2 src2 mime2),
             chat_id = None, message_id = None\<rparr> \<and>
          files s2 p2 = Some content2 \<and>
          index_file s2 = IndexJson (index_snapshot s2)) \<and>
      (resolve_extension src1 (resolve_mime g1 src1 mime1)
         \<noteq> resolve_extension src2 (resolve_mime g2 src2 mime2) \<longrightarrow>
       p1 \<noteq> p2 \<and>
       (\<exists>content1. files s src1 = Some content1 \<and> files s1 p1 = Some content1 \<and>
                    files s2 p1 = Some content1)))"
proof -
  have inv: "reachable s \<longrightarrow> distinct (map fst (index s))"
    by (simp add: reachable_store_inv store_inv_distinct)
  have inj: "(get_key c' m' = get_key c m) = (c' = c \<and> m' = m)" by (rule get_key_inj)
  have main: "length (filter (\<lambda>e. fst e = get_key c m) (index s2)) = 1 \<and>
      (\<exists>r content2.
          get_media s2 c m = Some r \<and> files s1 src2 = Some content2 \<and>
          heap s2 r =
            \<lparr>path = p2, mime_type = resolve_mime g2 src2 mime2, timestamp = now2,
             size_field = length content2,
             extension = resolve_extension src2 (resolve_mime g2 src2 mime2),
             chat_id = None, message_id = None\<rparr> \<and>
          files s2 p2 = Some content2 \<and>
          index_file s2 = IndexJson (index_snapshot s2)) \<and>
      (resolve_extension src1 (resolve_mime g1 src1 mime1)
         \<noteq> resolve_extension src2 (resolve_mime g2 src2 mime2) \<longrightarrow>
       p1 \<noteq> p2 \<and>
       (\<exists>content1. files s src1 = Some content1 \<and> files s1 p1 = Some content1 \<and>
                    files s2 p1 = Some content1))"
    if r: "reachable s" and sv1: "save_media g1 now1 c m src1 mime1 s = (Inr p1, s1)"
    and sv2: "save_media g2 now2 c m src2 mime2 s1 = (Inr p2, s2)"
  proof (intro conjI impI)
  define e1 where "e1 = resolve_extension src1 (resolve_mime g1 src1 mime1)"
  define e2 where "e2 = resolve_extension src2 (resolve_mime g2 src2 mime2)"
  define t1 where "t1 = saved_state now1 c m p1 (resolve_mime g1 src1 mime1) e1"
  define t2 where "t2 = saved_state now2 c m p2 (resolve_mime g2 src2 mime2) e2"
  from save_media_Inr [OF sv1] obtain content1 where
    c1: "files s src1 = Some content1" and p1: "p1 = get_file_path s c m e1" and
    s1: "s1 = (t1 content1 s)\<lparr>index_file := IndexJson (index_snapshot (t1 content1 s)),
                                index_writes := Suc (index_writes s)\<rparr>"
    unfolding e1_def t1_def by blast
  from save_media_Inr [OF sv2] obtain content2 where
    c2: "files s1 src2 = Some content2" and p2: "p2 = get_file_path s1 c m e2" and
    s2: "s2 = (t2 content2 s1)\<lparr>index_file := IndexJson (index_snapshot (t2 content2 s1)),
                                 index_writes := Suc (index_writes s1)\<rparr>"
    unfolding e2_def t2_def by blast
  have "reachable (snd (save_media g1 now1 c m src1 mime1 s))" using r by (rule reachable.save)
  then have r1: "reachable s1" by (simp add: sv1)
  then have "reachable (snd (save_media g2 now2 c m src2 mime2 s1))" by (rule reachable.save)
  then have r2: "reachable s2" by (simp add: sv2)
  have g: "get_media s2 c m = Some (next_ref s1)"
    by (simp add: s2 t2_def get_media_def saved_state_fields map_of_update_same)
  have d2: "distinct (map fst (index s2))"
    using r2 by (simp add: reachable_store_inv store_inv_distinct)
  from d2 g show len: "length (filter (\<lambda>e. fst e = get_key c m) (index s2)) = 1"
    unfolding get_media_def by (rule one_entry_per_key)
  have h: "heap s2 (next_ref s1) =
            \<lparr>path = p2, mime_type = resolve_mime g2 src2 mime2, timestamp = now2,
             size_field = length content2, extension = e2, chat_id = None, message_id = None\<rparr>"
    by (simp add: s2 t2_def saved_state_fields)
  have f2: "files s2 = (files s1)(p2 \<mapsto> content2)"
    by (simp add: s2 t2_def saved_state_fields)
  have f1: "files s1 = (files s)(p1 \<mapsto> content1)"
    by (simp add: s1 t1_def saved_state_fields)
  have j: "index_file s2 = IndexJson (index_snapshot s2)"
    by (simp add: s2 index_snapshot_def)
  from g c2 h f2 j
  show ex: "\<exists>r content2.
          get_media s2 c m = Some r \<and> files s1 src2 = Some content2 \<and>
          heap s2 r =
            \<lparr>path = p2, mime_type = resolve_mime g2 src2 mime2, timestamp = now2,
             size_field = length content2,
             extension = resolve_extension src2 (resolve_mime g2 src2 mime2),
             chat_id = None, message_id = None\<rparr> \<and>
          files s2 p2 = Some content2 \<and>
          index_file s2 = IndexJson (index_snapshot s2)"
    unfolding e2_def by auto
  assume "resolve_extension src1 (resolve_mime g1 src1 mime1)
         \<noteq> resolve_extension src2 (resolve_mime g2 src2 mime2)"
  then have ne: "e1 \<noteq> e2" by (simp add: e1_def e2_def)
  have b: "base_dir s1 = base_dir s" by (simp add: s1 t1_def saved_state_fields)
  have pne: "p1 \<noteq> p2"
    using ne get_file_path_ext_inj [OF b, of c m e1 e2] by (auto simp: p1 p2)
  then show "p1 \<noteq> p2" .
  from pne c1 show "\<exists>content1. files s src1 = Some content1 \<and> files s1 p1 = Some content1 \<and>
                    files s2 p1 = Some content1"
    by (simp add: f1 f2)
  qed
  from inv inj main show ?thesis by blast
qed

theorem key_uniqueness_and_overwrite_witness:
  "reachable demo_store \<and>
   save_media demo_guess demo_now 100 5 ''/tmp/photo.jpg'' None demo_store
     = (Inr ''/media/chat100_msg5.jpg'', demo_saved) \<and>
   (\<exists>s2. save_media demo_guess ''2025-01-02T08:30:00'' 100 5 ''/tmp/photo.png'' None demo_saved
            = (Inr ''/media/chat100_msg5.png'', s2) \<and>
          distinct (map fst (index demo_store)) \<and>
          length (filter (\<lambda>e. fst e = get_key 100 5) (index s2)) = 1 \<and>
          (\<exists>r. get_media s2 100 5 = Some r \<and>
                heap s2 r =
                  \<lparr>path = ''/media/chat100_msg5.png'', mime_type = ''image/png'',
                   timestamp = ''2025-01-02T08:30:00'', size_field = 2, extension = ''.png'',
                   chat_id = None, message_id = None\<rparr>) \<and>
          files s2 ''/media/chat100_msg5.jpg'' = Some [0xFF, 0xD8, 0xFF])"
proof -
  have fp: "files demo_saved ''/tmp/photo.png'' = Some [0x89, 0x50]"
    by (simp add: demo_saved_fields demo_files_def)
  have m2: "resolve_mime demo_guess ''/tmp/photo.png'' None = ''image/png''"
    by (simp add: resolve_mime_def demo_guess_def suffix_png)
  have e2: "resolve_extension ''/tmp/photo.png'' ''image/png'' = ''.png''"
    by (simp add: resolve_extension_def suffix_png)
  have m1: "resolve_mime demo_guess ''/tmp/photo.jpg'' None = ''image/jpeg''"
    by (simp add: resolve_mime_def demo_guess_photo)
  have e1: "resolve_extension ''/tmp/photo.jpg'' ''image/jpeg'' = ''.jpg''"
    by (simp add: resolve_extension_def suffix_photo)
  have d2: "get_file_path demo_saved 100 5 ''.png'' = ''/media/chat100_msg5.png''"
    by (simp add: get_file_path_def demo_saved_fields str_int_100 str_int_5 path_join_def)
  from save_media_succeeds [OF fp demo_saved_fields(8), of 100 5 demo_guess None "''2025-01-02T08:30:00''"]
  obtain s2 where
    sv2: "save_media demo_guess ''2025-01-02T08:30:00'' 100 5 ''/tmp/photo.png'' None demo_saved
            = (Inr ''/media/chat100_msg5.png'', s2)"
    unfolding m2 e2 d2 by auto
  from key_uniqueness_and_overwrite
         [of demo_store 100 5 100 5 demo_guess demo_now "''/tmp/photo.jpg''" None
             "''/media/chat100_msg5.jpg''" demo_saved demo_guess "''2025-01-02T08:30:00''"
             "''/tmp/photo.png''" None "''/media/chat100_msg5.png''" s2]
       demo_store_reachable demo_save_eq sv2
  have "distinct (map fst (index demo_store)) \<and>
        length (filter (\<lambda>e. fst e = get_key 100 5) (index s2)) = 1 \<and>
        (\<exists>r. get_media s2 100 5 = Some r \<and>
              heap s2 r =
                \<lparr>path = ''/media/chat100_msg5.png'', mime_type = ''image/png'',
                 timestamp = ''2025-01-02T08:30:00'', size_field = 2, extension = ''.png'',
                 chat_id = None, message_id = None\<rparr>) \<and>
        files s2 ''/media/chat100_msg5.jpg'' = Some [0xFF, 0xD8, 0xFF]"
    unfolding m1 m2 e1 e2 by (auto simp: fp demo_store_fields demo_files_photo)
  with demo_store_reachable demo_save_eq sv2 show ?thesis by blast
qed

section \<open>Listing twice, statistics\<close>

lemma list_media_Inr_writable:
  assumes keys: "list_all (\<lambda>(k, r). parse_key k \<noteq> None) (index s)"
      and l: "list_media s = (Inr l, s')"
  shows "index_writable s \<or> list_all (entry_valid s) (index s)"
proof (rule ccontr)
  assume n: "\<not> (index_writable s \<or> list_all (entry_valid s) (index s))"
  from list_loop_result [OF keys, of "[]" "[]" s] obtain s1 where
    ll: "list_loop (index s) [] [] s =
          (Inr (map snd (filter (entry_valid s) (index s)),
                map fst (filter (\<lambda>e. \<not> entry_valid s e) (index s))), s1)" and
    sb: "same_but_ids s s1"
    by auto
  have st: "map fst (filter (\<lambda>e. \<not> entry_valid s e) (index s)) \<noteq> []"
    using n by (auto simp: filter_empty_conv list_all_iff)
  have "index_writable (s1\<lparr>index := i\<rparr>) = index_writable s" for i
    by (simp add: same_but_ids_fields [OF sb])
  then have "\<exists>e s2. list_media s = (Inl e, s2)"
    using n st by (simp add: list_media_def ll save_index_def)
  with l show False by simp
qed

text \<open>A second listing right after a successful one returns the same references and
  changes nothing.\<close>

lemma list_media_idem:
  assumes inv: "store_inv s" and l: "list_media s = (Inr l, s')"
  shows "list_media s' = (Inr l, s')"
proof -
  define F where "F = filter (entry_valid s) (index s)"
  note keys = store_inv_keys [OF inv]
  note dk = store_inv_distinct(1) [OF inv]
  note dr = store_inv_distinct(2) [OF inv]
  from list_media_result [OF keys dk list_media_Inr_writable [OF keys l]] dr
  obtain s1 where sb: "same_but_ids s s1" and
    an: "\<forall>k r. (k, r) \<in> set (index s) \<and> entry_valid s (k, r) \<longrightarrow>
           (\<exists>c m. parse_key k = Some (c, m) \<and>
              heap s1 r = (heap s r)\<lparr>chat_id := Some c, message_id := Some m\<rparr>)" and
    lm: "list_media s =
           (Inr (map snd F),
            if list_all (entry_valid s) (index s) then s1
            else s1\<lparr>index := F,
                    index_file := IndexJson (map (\<lambda>(key, r). (key, heap s1 r)) F),
                    index_writes := Suc (index_writes s)\<rparr>)"
    unfolding F_def by blast
  note f = same_but_ids_fields [OF sb]
  have lF: "l = map snd F" using l lm by simp
  have allF: "list_all (entry_valid s) (index s) \<Longrightarrow> F = index s"
    by (simp add: F_def list_all_iff)
  have s': "s' = (if list_all (entry_valid s) (index s) then s1
            else s1\<lparr>index := F,
                    index_file := IndexJson (map (\<lambda>(key, r). (key, heap s1 r)) F),
                    index_writes := Suc (index_writes s)\<rparr>)"
    using l lm by simp
  have i': "index s' = F" by (simp add: s' f allF)
  have h': "heap s' = heap s1" by (simp add: s')
  have fl': "files s' = files s" by (simp add: s' f)
  have ev: "entry_valid s' e = entry_valid s e" for e
    by (simp add: entry_valid_def path_exists_def h' fl' f)
  have inv': "store_inv s'"
    using store_inv_list_media [OF inv] l by simp
  have av: "list_all (entry_valid s') (index s')"
    by (simp add: i' F_def list_all_iff ev)
  then have fv: "filter (entry_valid s') (index s') = index s'"
    by (simp add: list_all_iff)
  from list_media_result [OF store_inv_keys [OF inv'] store_inv_distinct(1) [OF inv']] av
    store_inv_distinct(2) [OF inv']
  obtain s2 where sb2: "same_but_ids s' s2" and
    un2: "\<forall>r. r \<notin> snd ` set (index s') \<longrightarrow> heap s2 r = heap s' r" and
    an2: "\<forall>k r. (k, r) \<in> set (index s') \<longrightarrow>
           (\<exists>c m. parse_key k = Some (c, m) \<and>
              heap s2 r = (heap s' r)\<lparr>chat_id := Some c, message_id := Some m\<rparr>)" and
    lm2: "list_media s' = (Inr (map snd (index s')), s2)"
    unfolding fv using av by (auto simp: list_all_iff)
  have "heap s2 r = heap s' r" for r
  proof (cases "r \<in> snd ` set (index s')")
    case False
    then show ?thesis using un2 by blast
  next
    case True
    then obtain k where m: "(k, r) \<in> set (index s')" by force
    with an2 obtain c m' where pk: "parse_key k = Some (c, m')" and
      1: "heap s2 r = (heap s' r)\<lparr>chat_id := Some c, message_id := Some m'\<rparr>" by blast
    from m have "(k, r) \<in> set (index s) \<and> entry_valid s (k, r)" by (simp add: i' F_def)
    with an pk have "heap s1 r = (heap s r)\<lparr>chat_id := Some c, message_id := Some m'\<rparr>"
      by fastforce
    then show ?thesis by (simp add: 1 h')
  qed
  then have "heap s2 = heap s'" by (rule ext)
  moreover have "s2 = s'\<lparr>heap := heap s2\<rparr>" using sb2 by (simp add: same_but_ids_def)
  ultimately have "s2 = s'" by simp
  with lm2 show ?thesis by (simp add: lF i')
qed

lemma round_half_even_close: "\<bar>of_int (round_half_even y) - y\<bar> \<le> 1 / 2"
proof -
  have "of_int \<lfloor>y\<rfloor> \<le> y" "y < of_int \<lfloor>y\<rfloor> + 1" by linarith+
  then show ?thesis by (auto simp: round_half_even_def Let_def)
qed

lemma py_round2_close: "\<bar>py_round2 x - x\<bar> \<le> 1 / 200"
proof -
  have "\<bar>of_int (round_half_even (x * 100)) - x * 100\<bar> \<le> 1 / 2"
    by (rule round_half_even_close)
  then have "\<bar>(of_int (round_half_even (x * 100)) - x * 100) / 100\<bar> \<le> (1 / 2) / 100"
    by (simp add: abs_divide)
  then show ?thesis by (simp add: py_round2_def diff_divide_distrib)
qed

text \<open>
  C6. Stats consistency: when the listing of the same state returns, \<open>get_storage_stats\<close>
  reports as \<open>total_files\<close> the number of records listed, as \<open>total_size_bytes\<close> the sum
  of their \<open>size\<close> fields, as \<open>total_size_mb\<close> that sum divided by \<open>1024 * 1024\<close> and
  rounded to hundredths (a multiple of one hundredth, at most half a hundredth away),
  and as \<open>storage_path\<close> the base directory; when the listing fails, so does the
  statistics call; in both cases the state left behind is the one the listing leaves,
  so the same stale entries are pruned. In a state that satisfies the store invariant a
  listing made right after returns the same records, and the statistics agree with it.
\<close>

theorem stats_consistency:
  "(\<forall>l s'. list_media s = (Inr l, s') \<longrightarrow>
      get_storage_stats s =
        (Inr \<lparr>total_files = length l,
              total_size_bytes = sum_list (map (\<lambda>r. size_field (heap s' r)) l),
              total_size_mb =
                py_round2 (of_nat (sum_list (map (\<lambda>r. size_field (heap s' r)) l)) / (1024 * 1024)),
              storage_path = base_dir s\<rparr>, s') \<and>
      (store_inv s \<longrightarrow> list_media s' = (Inr l, s') \<and>
         fst (get_storage_stats s') = fst (get_storage_stats s))) \<and>
   (\<forall>e s'. list_media s = (Inl e, s') \<longrightarrow> get_storage_stats s = (Inl e, s')) \<and>
   snd (get_storage_stats s) = snd (list_media s) \<and>
   (\<forall>x. (\<exists>k. py_round2 x = of_int k / 100) \<and> \<bar>py_round2 x - x\<bar> \<le> 1 / 200)"
proof (intro conjI allI impI)
  fix l s' assume l: "list_media s = (Inr l, s')"
  show st: "get_storage_stats s =
        (Inr \<lparr>total_files = length l,
              total_size_bytes = sum_list (map (\<lambda>r. size_field (heap s' r)) l),
              total_size_mb =
                py_round2 (of_nat (sum_list (map (\<lambda>r. size_field (heap s' r)) l)) / (1024 * 1024)),
              storage_path = base_dir s\<rparr>, s')"
    by (simp add: get_storage_stats_def l Let_def list_media_frame(1) [OF l])
  assume inv: "store_inv s"
  show l': "list_media s' = (Inr l, s')" using inv l by (rule list_media_idem)
  show "fst (get_storage_stats s') = fst (get_storage_stats s)"
    by (simp add: get_storage_stats_def l l' Let_def list_media_frame(1) [OF l])
next
  fix e s' assume "list_media s = (Inl e, s')"
  then show "get_storage_stats s = (Inl e, s')" by (simp add: get_storage_stats_def)
next
  show "snd (get_storage_stats s) = snd (list_media s)"
    by (auto simp: get_storage_stats_def Let_def case_prod_beta split: sum.splits)
next
  fix x show "\<exists>k. py_round2 x = of_int k / 100" by (auto simp: py_round2_def)
next
  fix x show "\<bar>py_round2 x - x\<bar> \<le> 1 / 200" by (rule py_round2_close)
qed
lemma split_100_5: "split_on CHR ''|'' ''100|5'' = [''100'', ''5'']"
  by code_simp

lemma demo_list_eq: "list_media demo_saved = (Inr [0], demo_listed)"
proof -
  have "fst (list_media demo_saved) = Inr [0]"
    by (simp add: list_media_def demo_saved_fields path_exists_def split_100_5 py_int_100 py_int_5
          heap_upd_def)
  then show ?thesis by (simp add: demo_listed_def prod_eq_iff)
qed

lemma demo_listed_fields:
  "base_dir demo_listed = ''/media''"
  "index demo_listed = [(''100|5'', 0)]"
  "heap demo_listed 0 =
     \<lparr>path = ''/media/chat100_msg5.jpg'', mime_type = ''image/jpeg'', timestamp = demo_now,
      size_field = 3, extension = ''.jpg'', chat_id = Some 100, message_id = Some 5\<rparr>"
  "files demo_listed = files demo_saved"
  "index_file demo_listed = index_file demo_saved"
  "index_writes demo_listed = 1"
  "undeletable demo_listed = {}"
  "index_writable demo_listed"
  by (simp_all add: demo_listed_def list_media_def demo_saved_fields path_exists_def split_100_5
        py_int_100 py_int_5 heap_upd_def)

lemma py_round2_small: "py_round2 (3 / (1024 * 1024)) = 0"
  by code_simp

text \<open>A tie goes to the even hundredth: 131072 bytes are 0.125 MB and are reported as
  0.12; 393216 bytes are 0.375 MB and are reported as 0.38.\<close>

lemma py_round2_ties:
  "py_round2 (131072 / (1024 * 1024)) = 12 / 100" "py_round2 (393216 / (1024 * 1024)) = 38 / 100"
  by code_simp+

theorem stats_consistency_witness:
  "store_inv demo_saved \<and> list_media demo_saved = (Inr [0], demo_listed) \<and>
   get_storage_stats demo_saved =
     (Inr \<lparr>total_files = 1, total_size_bytes = 3, total_size_mb = 0,
           storage_path = ''/media''\<rparr>, demo_listed) \<and>
   list_media demo_listed = (Inr [0], demo_listed) \<and>
   snd (get_storage_stats demo_saved) = snd (list_media demo_saved) \<and>
   \<bar>py_round2 (3 / (1024 * 1024)) - 3 / (1024 * 1024)\<bar> \<le> 1 / 200"
proof -
  from stats_consistency [of demo_saved] demo_list_eq demo_saved_inv
  have "get_storage_stats demo_saved =
          (Inr \<lparr>total_files = length [0::nat],
                total_size_bytes = sum_list (map (\<lambda>r. size_field (heap demo_listed r)) [0]),
                total_size_mb =
                  py_round2 (of_nat (sum_list (map (\<lambda>r. size_field (heap demo_listed r)) [0]))
                             / (1024 * 1024)),
                storage_path = base_dir demo_saved\<rparr>, demo_listed)"
    and "list_media demo_listed = (Inr [0], demo_listed)"
    and "snd (get_storage_stats demo_saved) = snd (list_media demo_saved)"
    and "\<bar>py_round2 (3 / (1024 * 1024)) - 3 / (1024 * 1024)\<bar> \<le> 1 / 200"
    by blast+
  then show ?thesis
    using demo_list_eq demo_saved_inv py_round2_small
    by (simp add: demo_listed_fields demo_saved_fields)
qed

section \<open>The extra fields a listing leaves in the index\<close>

lemma delete_media_True:
  assumes "delete_media s c m = (Inr True, s')"
  shows "index s' = filter (\<lambda>e. fst e \<noteq> get_key c m) (index s)" "heap s' = heap s"
    "index_file s' = IndexJson (index_snapshot s')"
proof -
  have "index s' = AList.delete (get_key c m) (index s) \<and> heap s' = heap s \<and>
        index_file s' = IndexJson (index_snapshot s')"
    using assms
    by (auto simp: delete_media_def Let_def save_index_def os_remove_def index_snapshot_def
          path_exists_def
        split: option.splits if_splits)
  then show "index s' = filter (\<lambda>e. fst e \<noteq> get_key c m) (index s)" "heap s' = heap s"
    "index_file s' = IndexJson (index_snapshot s')"
    by (simp_all add: delete_filter)
qed

lemma clear_all_media_Inr:
  assumes "clear_all_media s = (Inr n, s')"
  shows "index s' = []" "index_file s' = IndexJson []"
  using assms
  by (auto simp: clear_all_media_def save_index_def index_snapshot_def case_prod_beta
        split: if_splits)

lemma update_keeps_others:
  "(k, v) \<in> set al \<Longrightarrow> k \<noteq> key \<Longrightarrow> (k, v) \<in> set (AList.update key w al)"
  by (induction al) auto

lemma snapshot_filter:
  "map (\<lambda>(key, r). (key, h r)) (filter (\<lambda>e. fst e \<noteq> k) al)
     = filter (\<lambda>e. fst e \<noteq> k) (map (\<lambda>(key, r). (key, h r)) al)"
  by (induction al) auto

lemma demo_clear_listed:
  "fst (clear_all_media demo_listed) = Inr 1"
  "index_file (snd (clear_all_media demo_listed)) = IndexJson []"
  by (simp_all add: clear_all_media_def demo_listed_fields demo_saved_fields path_exists_def
        os_remove_def save_index_def index_snapshot_def Let_def)

text \<open>
  C10, as the claim states it, fails for a later clear: after a listing the entry in
  memory carries the two extra fields while the index file still has the entry without
  them; the next persistence, made by \<open>clear_all_media\<close>, writes an empty index, so the
  extra fields are not written to the index file.
\<close>

theorem list_then_clear_counterexample:
  "list_media demo_saved = (Inr [0], demo_listed) \<and>
   index_snapshot demo_listed =
     [(''100|5'',
       \<lparr>path = ''/media/chat100_msg5.jpg'', mime_type = ''image/jpeg'', timestamp = demo_now,
        size_field = 3, extension = ''.jpg'', chat_id = Some 100, message_id = Some 5\<rparr>)] \<and>
   index_file demo_listed =
     IndexJson [(''100|5'',
       \<lparr>path = ''/media/chat100_msg5.jpg'', mime_type = ''image/jpeg'', timestamp = demo_now,
        size_field = 3, extension = ''.jpg'', chat_id = None, message_id = None\<rparr>)] \<and>
   fst (clear_all_media demo_listed) = Inr 1 \<and>
   index_file (snd (clear_all_media demo_listed)) = IndexJson []"
  using demo_list_eq demo_clear_listed
  by (simp add: index_snapshot_def demo_listed_fields demo_saved_index_file)

text \<open>
  C10, amended. Let \<open>list_media\<close> return in a state that satisfies the store invariant.
  The references it returns are the index's own references, in index order (the
  metadata objects themselves, not copies). Every entry left in the index carries
  \<open>chat_id\<close> and \<open>message_id\<close>, holding the two integers its key reads as; nothing else
  of any metadata object has changed. If the listing pruned an entry, the index file it
  wrote holds the entries with the extra fields; otherwise the index file is untouched.
  A later delete that returns \<^verbatim>\<open>True\<close> writes all remaining entries with the extra
  fields; a later save that returns writes every entry of another key with them; a
  later clear writes an empty index.
\<close>

theorem list_annotates_index_entries:
  assumes "store_inv s" and "list_media s = (Inr valid, s')"
  shows "valid = map snd (index s') \<and>
         list_all carries_ids (index_snapshot s') \<and>
         (\<forall>r. heap s' r = (heap s r)\<lparr>chat_id := chat_id (heap s' r),
                                      message_id := message_id (heap s' r)\<rparr>) \<and>
         (index s' \<noteq> index s \<longrightarrow> index_file s' = IndexJson (index_snapshot s')) \<and>
         (index s' = index s \<longrightarrow> index_file s' = index_file s) \<and>
         (\<forall>c m s''. delete_media s' c m = (Inr True, s'') \<longrightarrow>
            index_file s'' = IndexJson (filter (\<lambda>e. fst e \<noteq> get_key c m) (index_snapshot s')) \<and>
            list_all carries_ids (filter (\<lambda>e. fst e \<noteq> get_key c m) (index_snapshot s'))) \<and>
         (\<forall>g now c m src mime p s''. save_media g now c m src mime s' = (Inr p, s'') \<longrightarrow>
            (\<exists>kvs. index_file s'' = IndexJson kvs \<and>
               (\<forall>e \<in> set (index_snapshot s'). fst e \<noteq> get_key c m \<longrightarrow> e \<in> set kvs \<and> carries_ids e))) \<and>
         (\<forall>n s''. clear_all_media s' = (Inr n, s'') \<longrightarrow> index_file s'' = IndexJson [])"
proof -
  define F where "F = filter (entry_valid s) (index s)"
  note keys = store_inv_keys [OF assms(1)]
  note dk = store_inv_distinct(1) [OF assms(1)]
  note dr = store_inv_distinct(2) [OF assms(1)]
  from list_media_result [OF keys dk list_media_Inr_writable [OF keys assms(2)]] dr
  obtain s1 where sb: "same_but_ids s s1" and
    an: "\<forall>k r. (k, r) \<in> set (index s) \<and> entry_valid s (k, r) \<longrightarrow>
           (\<exists>c m. parse_key k = Some (c, m) \<and>
              heap s1 r = (heap s r)\<lparr>chat_id := Some c, message_id := Some m\<rparr>)" and
    lm: "list_media s =
           (Inr (map snd F),
            if list_all (entry_valid s) (index s) then s1
            else s1\<lparr>index := F,
                    index_file := IndexJson (map (\<lambda>(key, r). (key, heap s1 r)) F),
                    index_writes := Suc (index_writes s)\<rparr>)"
    unfolding F_def by blast
  note f = same_but_ids_fields [OF sb]
  have s': "s' = (if list_all (entry_valid s) (index s) then s1
            else s1\<lparr>index := F,
                    index_file := IndexJson (map (\<lambda>(key, r). (key, heap s1 r)) F),
                    index_writes := Suc (index_writes s)\<rparr>)"
    using assms(2) lm by simp
  have allF: "list_all (entry_valid s) (index s) = (F = index s)"
    by (simp add: F_def list_all_iff filter_id_conv)
  have i': "index s' = F" using allF by (simp add: s' f)
  have h': "heap s' = heap s1" by (simp add: s')
  have 1: "valid = map snd (index s')" using assms(2) lm by (simp add: i')
  have c: "carries_ids (k, heap s' r)" if "(k, r) \<in> set (index s')" for k r
  proof -
    from that have "(k, r) \<in> set (index s) \<and> entry_valid s (k, r)" by (simp add: i' F_def)
    with an obtain c m where "parse_key k = Some (c, m)"
      "heap s1 r = (heap s r)\<lparr>chat_id := Some c, message_id := Some m\<rparr>" by blast
    then show ?thesis by (simp add: carries_ids_def h')
  qed
  then have 2: "list_all carries_ids (index_snapshot s')"
    by (auto simp: index_snapshot_def list_all_iff)
  have 3: "\<forall>r. heap s' r = (heap s r)\<lparr>chat_id := chat_id (heap s' r),
                                      message_id := message_id (heap s' r)\<rparr>"
    using sb by (simp add: same_but_ids_def h')
  have 4: "index s' \<noteq> index s \<longrightarrow> index_file s' = IndexJson (index_snapshot s')"
    using allF by (auto simp: s' f index_snapshot_def)
  have 5: "index s' = index s \<longrightarrow> index_file s' = index_file s"
    using allF by (auto simp: s' i' f)
  have inv': "store_inv s'" using store_inv_list_media [OF assms(1)] assms(2) by simp
  have 6: "\<forall>c m s''. delete_media s' c m = (Inr True, s'') \<longrightarrow>
            index_file s'' = IndexJson (filter (\<lambda>e. fst e \<noteq> get_key c m) (index_snapshot s')) \<and>
            list_all carries_ids (filter (\<lambda>e. fst e \<noteq> get_key c m) (index_snapshot s'))"
  proof (intro allI impI)
    fix c m s'' assume d: "delete_media s' c m = (Inr True, s'')"
    have "index_snapshot s'' = filter (\<lambda>e. fst e \<noteq> get_key c m) (index_snapshot s')"
      by (simp add: index_snapshot_def delete_media_True(1,2) [OF d] snapshot_filter)
    then show "index_file s'' = IndexJson (filter (\<lambda>e. fst e \<noteq> get_key c m) (index_snapshot s')) \<and>
               list_all carries_ids (filter (\<lambda>e. fst e \<noteq> get_key c m) (index_snapshot s'))"
      using delete_media_True(3) [OF d] 2 by (simp add: list_all_iff)
  qed
  have 7: "\<forall>g now c m src mime p s''. save_media g now c m src mime s' = (Inr p, s'') \<longrightarrow>
            (\<exists>kvs. index_file s'' = IndexJson kvs \<and>
               (\<forall>e \<in> set (index_snapshot s'). fst e \<noteq> get_key c m \<longrightarrow> e \<in> set kvs \<and> carries_ids e))"
  proof (intro allI impI)
    fix g now c m src mime p s''
    assume sv: "save_media g now c m src mime s' = (Inr p, s'')"
    define t where "t = saved_state now c m p (resolve_mime g src mime)
                          (resolve_extension src (resolve_mime g src mime))"
    from save_media_Inr [OF sv] obtain content where
      j: "index_file s'' = IndexJson (index_snapshot (t content s'))"
      unfolding t_def by auto
    have "e \<in> set (index_snapshot (t content s')) \<and> carries_ids e"
      if e: "e \<in> set (index_snapshot s')" and ne: "fst e \<noteq> get_key c m" for e
    proof -
      from e obtain k r where kr: "(k, r) \<in> set (index s')" and ee: "e = (k, heap s' r)"
        by (auto simp: index_snapshot_def)
      from store_inv_entry [OF inv' kr] have "r \<noteq> next_ref s'" by simp
      then have "heap (t content s') r = heap s' r" by (simp add: t_def saved_state_fields)
      moreover have "(k, r) \<in> set (index (t content s'))"
        using kr ne ee by (simp add: t_def saved_state_fields update_keeps_others)
      ultimately have "(k, heap s' r) \<in> set (index_snapshot (t content s'))"
        by (force simp: index_snapshot_def)
      then show ?thesis using c [OF kr] by (simp add: ee)
    qed
    with j show "\<exists>kvs. index_file s'' = IndexJson kvs \<and>
               (\<forall>e \<in> set (index_snapshot s'). fst e \<noteq> get_key c m \<longrightarrow> e \<in> set kvs \<and> carries_ids e)"
      by blast
  qed
  have 8: "\<forall>n s''. clear_all_media s' = (Inr n, s'') \<longrightarrow> index_file s'' = IndexJson []"
    using clear_all_media_Inr(2) by blast
  from 1 2 3 4 5 6 7 8 show ?thesis by blast
qed

lemma str_int_6: "str_int 6 = ''6''"
  by code_simp

theorem list_annotates_index_entries_witness:
  "store_inv demo_saved \<and> list_media demo_saved = (Inr [0], demo_listed) \<and>
   [0] = map snd (index demo_listed) \<and>
   list_all carries_ids (index_snapshot demo_listed) \<and>
   index_file demo_listed = index_file demo_saved \<and>
   (\<exists>s''. save_media demo_guess demo_now 100 6 ''/tmp/photo.png'' None demo_listed
             = (Inr ''/media/chat100_msg6.png'', s'') \<and>
          (\<exists>kvs. index_file s'' = IndexJson kvs \<and>
             (''100|5'',
              \<lparr>path = ''/media/chat100_msg5.jpg'', mime_type = ''image/jpeg'', timestamp = demo_now,
               size_field = 3, extension = ''.jpg'', chat_id = Some 100, message_id = Some 5\<rparr>)
               \<in> set kvs))"
proof -
  have fp: "files demo_listed ''/tmp/photo.png'' = Some [0x89, 0x50]"
    by (simp add: demo_listed_fields demo_saved_fields demo_files_def)
  have m2: "resolve_mime demo_guess ''/tmp/photo.png'' None = ''image/png''"
    by (simp add: resolve_mime_def demo_guess_def suffix_png)
  have e2: "resolve_extension ''/tmp/photo.png'' ''image/png'' = ''.png''"
    by (simp add: resolve_extension_def suffix_png)
  have d2: "get_file_path demo_listed 100 6 ''.png'' = ''/media/chat100_msg6.png''"
    by (simp add: get_file_path_def demo_listed_fields str_int_100 str_int_6 path_join_def)
  from save_media_succeeds [OF fp demo_listed_fields(8), of 100 6 demo_guess None demo_now]
  obtain s'' where
    sv: "save_media demo_guess demo_now 100 6 ''/tmp/photo.png'' None demo_listed
            = (Inr ''/media/chat100_msg6.png'', s'')"
    unfolding m2 e2 d2 by auto
  have k: "get_key 100 6 = ''100|6''"
    by (simp add: get_key_def str_int_100 str_int_6)
  have sn: "index_snapshot demo_listed =
     [(''100|5'',
       \<lparr>path = ''/media/chat100_msg5.jpg'', mime_type = ''image/jpeg'', timestamp = demo_now,
        size_field = 3, extension = ''.jpg'', chat_id = Some 100, message_id = Some 5\<rparr>)]"
    by (simp add: index_snapshot_def demo_listed_fields)
  note t = list_annotates_index_entries [OF demo_saved_inv demo_list_eq]
  from t have a: "[0] = map snd (index demo_listed)"
    and b: "list_all carries_ids (index_snapshot demo_listed)"
    and c: "index demo_listed = index demo_saved \<longrightarrow> index_file demo_listed = index_file demo_saved"
    by blast+
  from t sv obtain kvs where
    kv: "index_file s'' = IndexJson kvs"
        "\<forall>e \<in> set (index_snapshot demo_listed). fst e \<noteq> get_key 100 6 \<longrightarrow> e \<in> set kvs \<and> carries_ids e"
    by blast
  from kv(2) have "(''100|5'',
       \<lparr>path = ''/media/chat100_msg5.jpg'', mime_type = ''image/jpeg'', timestamp = demo_now,
        size_field = 3, extension = ''.jpg'', chat_id = Some 100, message_id = Some 5\<rparr>) \<in> set kvs"
    unfolding sn k by simp
  with kv(1) sv a b c demo_saved_inv demo_list_eq show ?thesis
    by (auto simp: demo_listed_fields demo_saved_fields)
qed

section \<open>Clearing the store\<close>

lemma clear_loop_step_skip:
  "\<not> path_exists (path (heap s r)) s \<or> path (heap s r) \<in> undeletable s \<Longrightarrow>
   clear_loop (r # rs) n s = clear_loop rs n s"
  by (auto simp: Let_def os_remove_def path_exists_def)

lemma clear_loop_step_remove:
  "path_exists (path (heap s r)) s \<Longrightarrow> path (heap s r) \<notin> undeletable s \<Longrightarrow>
   clear_loop (r # rs) n s =
     clear_loop rs (n + 1) (s\<lparr>files := (files s)(path (heap s r) := None)\<rparr>)"
  by (auto simp: Let_def os_remove_def path_exists_def)

text \<open>The count \<open>clear_loop\<close> returns is the number of files that were there before and
  are gone after; no file changes content, and only files the entries name are removed.\<close>

lemma clear_loop_count:
  "clear_loop rs n s = (n', s') \<Longrightarrow>
   n' = n + card {p. files s p \<noteq> None \<and> files s' p = None} \<and>
   (\<forall>p. files s' p = None \<or> files s' p = files s p) \<and>
   {p. files s p \<noteq> None \<and> files s' p = None} \<subseteq> (\<lambda>r. path (heap s r)) ` set rs"
proof (induction rs arbitrary: n s)
  case Nil
  then have a: "n' = n" "s' = s" by simp_all
  have e: "{p. files s p \<noteq> None \<and> files s p = None} = {}" by blast
  show ?case unfolding a e by simp
next
  case (Cons r rs)
  define p where "p = path (heap s r)"
  show ?case
  proof (cases "path_exists p s \<and> p \<notin> undeletable s")
    case False
    then have "clear_loop (r # rs) n s = clear_loop rs n s"
      unfolding p_def by (intro clear_loop_step_skip) blast
    with Cons.prems have "clear_loop rs n s = (n', s')" by simp
    from Cons.IH [OF this] show ?thesis by auto
  next
    case True
    define s1 where "s1 = s\<lparr>files := (files s)(p := None)\<rparr>"
    have "clear_loop (r # rs) n s = clear_loop rs (n + 1) s1"
      unfolding s1_def p_def using True by (intro clear_loop_step_remove) (simp_all add: p_def)
    with Cons.prems have "clear_loop rs (n + 1) s1 = (n', s')" by simp
    from Cons.IH [OF this] have
      cnt: "n' = n + 1 + card {q. files s1 q \<noteq> None \<and> files s' q = None}" and
      mono: "\<forall>q. files s' q = None \<or> files s' q = files s1 q" and
      sub: "{q. files s1 q \<noteq> None \<and> files s' q = None} \<subseteq> (\<lambda>r. path (heap s1 r)) ` set rs"
      by auto
    have f1: "files s1 q = (if q = p then None else files s q)" for q by (simp add: s1_def)
    have h1: "heap s1 = heap s" by (simp add: s1_def)
    have gone: "files s' p = None"
    proof -
      from mono have "files s' p = None \<or> files s' p = files s1 p" by blast
      then show ?thesis by (simp add: f1)
    qed
    have ex: "files s p \<noteq> None" using True by (simp add: path_exists_def)
    have eq: "{q. files s q \<noteq> None \<and> files s' q = None}
                = insert p {q. files s1 q \<noteq> None \<and> files s' q = None}"
      using gone ex by (auto simp: f1)
    have fin: "finite {q. files s1 q \<noteq> None \<and> files s' q = None}"
      using sub by (rule finite_subset) simp
    have notin: "p \<notin> {q. files s1 q \<noteq> None \<and> files s' q = None}" by (simp add: f1)
    have 1: "n' = n + card {q. files s q \<noteq> None \<and> files s' q = None}"
      unfolding eq using cnt fin notin by simp
    have 2: "\<forall>q. files s' q = None \<or> files s' q = files s q"
    proof
      fix q
      from mono have "files s' q = None \<or> files s' q = files s1 q" by blast
      then show "files s' q = None \<or> files s' q = files s q"
        using gone by (cases "q = p") (simp_all add: f1)
    qed
    have 3: "{q. files s q \<noteq> None \<and> files s' q = None} \<subseteq> (\<lambda>r. path (heap s r)) ` set (r # rs)"
      unfolding eq using sub by (auto simp: h1 p_def)
    from 1 2 3 show ?thesis by blast
  qed
qed

lemma clear_loop_all_removed:
  "\<forall>r \<in> set rs. path (heap s r) \<notin> undeletable s \<Longrightarrow> clear_loop rs n s = (n', s') \<Longrightarrow>
   \<forall>r \<in> set rs. files s' (path (heap s r)) = None"
proof (induction rs arbitrary: n s)
  case Nil
  then show ?case by simp
next
  case (Cons r rs)
  define p where "p = path (heap s r)"
  show ?case
  proof (cases "path_exists p s")
    case False
    then have "clear_loop (r # rs) n s = clear_loop rs n s"
      unfolding p_def by (intro clear_loop_step_skip) blast
    with Cons.prems have l: "clear_loop rs n s = (n', s')" by simp
    from clear_loop_count [OF l] have "files s' p = None \<or> files s' p = files s p" by blast
    with False have "files s' p = None" by (auto simp: path_exists_def)
    moreover from Cons.IH [OF _ l] Cons.prems(1)
    have "\<forall>r \<in> set rs. files s' (path (heap s r)) = None" by simp
    ultimately show ?thesis by (simp add: p_def)
  next
    case True
    define s1 where "s1 = s\<lparr>files := (files s)(p := None)\<rparr>"
    have nu: "p \<notin> undeletable s" using Cons.prems(1) by (simp add: p_def)
    have "clear_loop (r # rs) n s = clear_loop rs (n + 1) s1"
      unfolding s1_def p_def using True nu by (intro clear_loop_step_remove) (simp_all add: p_def)
    with Cons.prems have l: "clear_loop rs (n + 1) s1 = (n', s')" by simp
    have "files s1 p = None" by (simp add: s1_def)
    moreover from clear_loop_count [OF l] have "files s' p = None \<or> files s' p = files s1 p"
      by blast
    ultimately have "files s' p = None" by auto
    moreover have "\<forall>r \<in> set rs. path (heap s1 r) \<notin> undeletable s1"
      using Cons.prems(1) by (simp add: s1_def)
    from Cons.IH [OF this l] have "\<forall>r \<in> set rs. files s' (path (heap s r)) = None"
      by (simp add: s1_def)
    ultimately show ?thesis by (simp add: p_def)
  qed
qed

lemma str_int_chars: "CHR ''_'' \<notin> set (str_int i)" "CHR ''.'' \<notin> set (str_int i)"
  using digits_set [of "nat i"] digits_set [of "nat (- i)"] by (auto simp: str_int_def)

lemma str_int_inj: "str_int i = str_int j \<Longrightarrow> i = j"
  by (metis py_int_str_int option.inject)

lemma first_separator:
  "x \<notin> set a \<Longrightarrow> x \<notin> set a' \<Longrightarrow> a @ x # b = a' @ x # b' \<Longrightarrow> a = a' \<and> b = b'"
proof (induction a arbitrary: a')
  case Nil
  then show ?case by (cases a') auto
next
  case (Cons y a)
  then show ?case by (cases a') auto
qed

lemma file_name_inj:
  assumes "take 1 e = ''.''" "take 1 e' = ''.''"
      and "''chat'' @ str_int c @ ''_msg'' @ str_int m @ e
             = ''chat'' @ str_int c' @ ''_msg'' @ str_int m' @ e'"
  shows "c = c' \<and> m = m'"
proof -
  obtain t where e: "e = CHR ''.'' # t" using assms(1) by (cases e) auto
  obtain t' where e': "e' = CHR ''.'' # t'" using assms(2) by (cases e') auto
  from assms(3) have
    "str_int c @ CHR ''_'' # (''msg'' @ str_int m @ e) = str_int c' @ CHR ''_'' # (''msg'' @ str_int m' @ e')"
    by simp
  with str_int_chars(1) [of c] str_int_chars(1) [of c']
  have 12: "str_int c = str_int c' \<and> ''msg'' @ str_int m @ e = ''msg'' @ str_int m' @ e'"
    by (rule first_separator)
  then have "str_int m @ CHR ''.'' # t = str_int m' @ CHR ''.'' # t'" by (simp add: e e')
  with str_int_chars(2) [of m] str_int_chars(2) [of m']
  have "str_int m = str_int m' \<and> t = t'" by (rule first_separator)
  with 12 show ?thesis by (simp add: str_int_inj)
qed

text \<open>Under the invariant the entries of the index name pairwise distinct files.\<close>

lemma store_inv_distinct_paths:
  assumes "store_inv s"
  shows "distinct (map (\<lambda>r. path (heap s r)) (map snd (index s)))"
proof -
  have "inj_on (\<lambda>r. path (heap s r)) (set (map snd (index s)))"
  proof (rule inj_onI)
    fix r r'
    assume r: "r \<in> set (map snd (index s))" and r': "r' \<in> set (map snd (index s))"
      and eq: "path (heap s r) = path (heap s r')"
    from r obtain k where k: "(k, r) \<in> set (index s)" by auto
    from r' obtain k' where k': "(k', r') \<in> set (index s)" by auto
    from store_inv_entry [OF assms k] obtain c m where
      1: "k = get_key c m"
         "path (heap s r) = path_join (base_dir s)
            (''chat'' @ str_int c @ ''_msg'' @ str_int m @ extension (heap s r))"
         "take 1 (extension (heap s r)) = ''.''"
      by (auto simp: entry_ok_def split: option.splits)
    from store_inv_entry [OF assms k'] obtain c' m' where
      2: "k' = get_key c' m'"
         "path (heap s r') = path_join (base_dir s)
            (''chat'' @ str_int c' @ ''_msg'' @ str_int m' @ extension (heap s r'))"
         "take 1 (extension (heap s r')) = ''.''"
      by (auto simp: entry_ok_def split: option.splits)
    from eq 1(2) 2(2) have
      "path_join (base_dir s) (''chat'' @ str_int c @ ''_msg'' @ str_int m @ extension (heap s r))
         = path_join (base_dir s)
             (''chat'' @ str_int c' @ ''_msg'' @ str_int m' @ extension (heap s r'))"
      by simp
    then have
      "''chat'' @ str_int c @ ''_msg'' @ str_int m @ extension (heap s r)
         = ''chat'' @ str_int c' @ ''_msg'' @ str_int m' @ extension (heap s r')"
      by (rule path_join_inj)
    from file_name_inj [OF 1(3) 2(3) this] have "k = k'" by (simp add: 1(1) 2(1))
    with k k' have "(k, r) \<in> set (index s)" "(k, r') \<in> set (index s)" by simp_all
    with store_inv_distinct(1) [OF assms] show "r = r'"
      by (rule eq_key_imp_eq_value)
  qed
  with store_inv_distinct(2) [OF assms]
  have "distinct (map snd (index s)) \<and> inj_on (\<lambda>r. path (heap s r)) (set (map snd (index s)))"
    by blast
  then show ?thesis by (rule iffD2 [OF distinct_map])
qed

lemma demo_locked_fields:
  "index demo_locked = [(''100|5'', 0)]"
  "heap demo_locked 0 = heap demo_saved 0"
  "files demo_locked = files demo_saved"
  "undeletable demo_locked = {''/media/chat100_msg5.jpg''}"
  "index_writable demo_locked"
  by (simp_all add: demo_locked_def demo_saved_fields)

text \<open>
  C5, as the claim states it, fails when a removal fails: the store has one entry
  (\<open>N = 1\<close>) whose file exists (\<open>M = 0\<close>) but cannot be removed; \<open>clear_all_media\<close>
  returns 0, not \<open>N - M = 1\<close>, and the file is still there.
\<close>

theorem clear_all_locked_counterexample:
  "length (index demo_locked) = 1 \<and>
   length (filter (\<lambda>e. \<not> entry_valid demo_locked e) (index demo_locked)) = 0 \<and>
   fst (clear_all_media demo_locked) = Inr 0 \<and>
   index (snd (clear_all_media demo_locked)) = [] \<and>
   index_file (snd (clear_all_media demo_locked)) = IndexJson [] \<and>
   files (snd (clear_all_media demo_locked)) ''/media/chat100_msg5.jpg'' = Some [0xFF, 0xD8, 0xFF]"
  by (simp add: clear_all_media_def demo_locked_fields demo_saved_fields entry_valid_def
        path_exists_def os_remove_def save_index_def index_snapshot_def Let_def)

text \<open>
  C5, amended. When the index file can be written, \<open>clear_all_media\<close> returns the number of
  files actually removed (files present before and absent after), which is never more
  than \<open>N - M\<close> for \<open>N\<close> index entries of which \<open>M\<close> name missing files; afterwards the
  index is empty and the index file holds the empty index, whatever removals failed. In
  a state that satisfies the store invariant, when no removal fails, the number
  returned is exactly \<open>N - M\<close>. On an empty store it returns 0 and removes nothing.
\<close>

theorem clear_all_count:
  assumes "index_writable s"
  shows "\<exists>n s'. clear_all_media s = (Inr n, s') \<and> index s' = [] \<and> index_file s' = IndexJson [] \<and>
           n = card {p. files s p \<noteq> None \<and> files s' p = None} \<and>
           n \<le> length (index s) - length (filter (\<lambda>e. \<not> entry_valid s e) (index s)) \<and>
           (store_inv s \<and> (\<forall>e \<in> set (index s). path (heap s (snd e)) \<notin> undeletable s) \<longrightarrow>
              n = length (index s) - length (filter (\<lambda>e. \<not> entry_valid s e) (index s))) \<and>
           (index s = [] \<longrightarrow> n = 0 \<and> files s' = files s)"
proof -
  define f where "f = (\<lambda>r. path (heap s r))"
  define rs where "rs = map snd (index s)"
  define ex where "ex = filter (\<lambda>r. files s (f r) \<noteq> None) rs"
  obtain n s1 where l: "clear_loop rs 0 s = (n, s1)" by (cases "clear_loop rs 0 s")
  from clear_loop_frame [OF l] have fr: "s1 = s\<lparr>files := files s1\<rparr>" .
  have w1: "index_writable (s1\<lparr>index := []\<rparr>)"
    by (subst fr) (simp add: assms)
  define s' where
    "s' = s1\<lparr>index := [], index_file := IndexJson [], index_writes := Suc (index_writes s1)\<rparr>"
  have c: "clear_all_media s = (Inr n, s')"
    using save_index_ok [OF w1]
    by (simp add: clear_all_media_def l [unfolded rs_def] s'_def index_snapshot_def)
  have fs: "files s' = files s1" by (simp add: s'_def)
  from clear_loop_count [OF l] have
    cnt: "n = card {p. files s p \<noteq> None \<and> files s1 p = None}" and
    sub: "{p. files s p \<noteq> None \<and> files s1 p = None} \<subseteq> f ` set rs"
    unfolding f_def by auto
  have len: "length ex = length (index s) - length (filter (\<lambda>e. \<not> entry_valid s e) (index s))"
  proof -
    have "(\<lambda>e. files s (f (snd e)) \<noteq> None) = entry_valid s"
      by (rule ext) (simp add: entry_valid_def path_exists_def f_def)
    moreover have "ex = map snd (filter (\<lambda>e. files s (f (snd e)) \<noteq> None) (index s))"
      unfolding ex_def rs_def by (simp only: filter_map o_def)
    ultimately have "ex = map snd (filter (entry_valid s) (index s))" by simp
    then have "length ex = length (filter (entry_valid s) (index s))" by simp
    with sum_length_filter_compl [of "entry_valid s" "index s"] show ?thesis by simp
  qed
  have sub2: "{p. files s p \<noteq> None \<and> files s1 p = None} \<subseteq> set (map f ex)"
    using sub by (auto simp: ex_def)
  have le: "n \<le> length ex"
  proof -
    have "n \<le> card (set (map f ex))" unfolding cnt by (rule card_mono [OF _ sub2]) simp
    also have "\<dots> \<le> length (map f ex)" by (rule card_length)
    finally show ?thesis by simp
  qed
  have exact: "n = length ex"
    if inv: "store_inv s" and nu: "\<forall>e \<in> set (index s). path (heap s (snd e)) \<notin> undeletable s"
  proof -
    from nu have "\<forall>r \<in> set rs. path (heap s r) \<notin> undeletable s" by (auto simp: rs_def)
    from clear_loop_all_removed [OF this l]
    have gone: "\<forall>r \<in> set rs. files s1 (f r) = None" by (simp add: f_def)
    have eq: "{p. files s p \<noteq> None \<and> files s1 p = None} = set (map f ex)"
    proof
      show "{p. files s p \<noteq> None \<and> files s1 p = None} \<subseteq> set (map f ex)" by (rule sub2)
      show "set (map f ex) \<subseteq> {p. files s p \<noteq> None \<and> files s1 p = None}"
        using gone by (auto simp: ex_def)
    qed
    have "distinct (map f rs)"
      using store_inv_distinct_paths [OF inv] by (simp add: f_def rs_def)
    then have "distinct (map f ex)" unfolding ex_def by (rule distinct_map_filter)
    then have "card (set (map f ex)) = length (map f ex)" by (rule distinct_card)
    then show ?thesis unfolding cnt eq by simp
  qed
  have empty: "n = 0 \<and> files s' = files s" if "index s = []"
    using l that by (simp add: rs_def fs)
  from c cnt le exact empty show ?thesis
    unfolding len fs [symmetric] by (auto simp: s'_def)
qed

theorem clear_all_count_witness:
  "index_writable demo_saved \<and> store_inv demo_saved \<and>
   index demo_saved = [(''100|5'', 0)] \<and>
   path (heap demo_saved 0) \<notin> undeletable demo_saved \<and>
   (\<exists>s'. clear_all_media demo_saved = (Inr 1, s') \<and> index s' = [] \<and> index_file s' = IndexJson []) \<and>
   index_writable demo_store \<and> index demo_store = [] \<and>
   (\<exists>s'. clear_all_media demo_store = (Inr 0, s') \<and> index s' = [] \<and> files s' = files demo_store)"
proof -
  have nu: "\<forall>e \<in> set (index demo_saved). path (heap demo_saved (snd e)) \<notin> undeletable demo_saved"
    by (simp add: demo_saved_fields)
  have nm: "length (index demo_saved)
              - length (filter (\<lambda>e. \<not> entry_valid demo_saved e) (index demo_saved)) = 1"
    by (simp add: demo_saved_fields entry_valid_def path_exists_def)
  from clear_all_count [OF demo_saved_fields(8)] obtain n s' where
    a: "clear_all_media demo_saved = (Inr n, s')" "index s' = []" "index_file s' = IndexJson []"
       "store_inv demo_saved \<and>
        (\<forall>e \<in> set (index demo_saved). path (heap demo_saved (snd e)) \<notin> undeletable demo_saved) \<longrightarrow>
        n = length (index demo_saved)
              - length (filter (\<lambda>e. \<not> entry_valid demo_saved e) (index demo_saved))"
    by blast
  from a(4) demo_saved_inv nu have "n = 1" unfolding nm by blast
  with a(1-3) have 1: "\<exists>s'. clear_all_media demo_saved = (Inr 1, s') \<and> index s' = [] \<and>
                      index_file s' = IndexJson []"
    by (intro exI [of _ s']) simp
  from clear_all_count [OF demo_store_fields(8)] obtain n0 s0 where
    b: "clear_all_media demo_store = (Inr n0, s0)" "index s0 = []"
       "index demo_store = [] \<longrightarrow> n0 = 0 \<and> files s0 = files demo_store"
    by blast
  from b demo_store_fields(2)
  have 2: "\<exists>s'. clear_all_media demo_store = (Inr 0, s') \<and> index s' = [] \<and> files s' = files demo_store"
    by (intro exI [of _ s0]) simp
  have nu0: "path (heap demo_saved 0) \<notin> undeletable demo_saved"
    by (simp add: demo_saved_fields)
  from 1 2 nu0 demo_saved_inv demo_saved_fields(2) demo_saved_fields(8) demo_store_fields(8)
    demo_store_fields(2)
  show ?thesis by blast
qed

end
